theory Spec2Isabelle
  imports Complex_Main "HOL-Library.Log_Nat" "HOL-Library.Product_Lexorder" "HOL-Library.Multiset"
begin

section \<open>Python numbers\<close>

text \<open>
  Item counts are Python integers (unbounded): \<^typ>\<open>int\<close>.

  Weights are Python floats, that is IEEE 754 binary64 numbers.  A finite float is
  modelled by the rational number it denotes, and every arithmetic operation on floats is
  the exact operation followed by \<open>fl\<close>, rounding to the nearest number with a 53-bit
  significand, ties to the even significand.  The exponent is not bounded: overflow to
  infinity, subnormal numbers and NaN are outside the model.
\<close>

definition pow2 :: "int \<Rightarrow> rat" where
  "pow2 e = (if 0 \<le> e then 2 ^ nat e else 1 / 2 ^ nat (- e))"

definition round_half_even :: "rat \<Rightarrow> int" where
  "round_half_even r =
     (let f = \<lfloor>r\<rfloor>; d = r - of_int f
      in if d < 1 / 2 then f else if 1 / 2 < d then f + 1 else if even f then f else f + 1)"

text \<open>The binary exponent of a positive rational: \<open>pow2 (expo x) \<le> x < pow2 (expo x + 1)\<close>.\<close>

definition expo :: "rat \<Rightarrow> int" where
  "expo x = (case quotient_of x of (p, q) \<Rightarrow>
       (let k = bitlen p - bitlen q in if pow2 k \<le> x then k else k - 1))"

definition fl :: "rat \<Rightarrow> rat" where
  "fl x = (if x = 0 then 0
           else let e = expo \<bar>x\<bar> - 52
                in sgn x * of_int (round_half_even (\<bar>x\<bar> / pow2 e)) * pow2 e)"

datatype error = ZeroDivisionError | ValueError

text \<open>\<open>a / b\<close> on floats raises \<open>ZeroDivisionError\<close> when \<open>b\<close> is zero.\<close>

definition float_div :: "rat \<Rightarrow> rat \<Rightarrow> error + rat" where
  "float_div a b = (if b = 0 then Inl ZeroDivisionError else Inr (fl (a / b)))"

text \<open>\<open>n * w\<close> with an integer \<open>n\<close> and a float \<open>w\<close>: \<open>n\<close> is converted to a float first.\<close>

definition float_mul_int :: "int \<Rightarrow> rat \<Rightarrow> rat" where
  "float_mul_int n w = fl (fl (of_int n) * w)"

definition float_sub :: "rat \<Rightarrow> rat \<Rightarrow> rat" where
  "float_sub a b = fl (a - b)"

text \<open>\<open>int(x)\<close> of a float truncates toward zero.\<close>

definition py_int :: "rat \<Rightarrow> int" where
  "py_int x = (if 0 \<le> x then \<lfloor>x\<rfloor> else \<lceil>x\<rceil>)"

section \<open>Rows of the CSV stores\<close>

text \<open>
  A row of \<open>vehicle.csv\<close> (\<open>Vehicle.DEFAULT_FIELDNAMES\<close>) and a row of \<open>item.csv\<close>
  (\<open>Item.DEFAULT_FIELDNAMES\<close>).  The rows are taken as already parsed: a field that
  \<open>select_vehicle\<close> reads through \<open>float(...)\<close> holds the float, a field read through
  \<open>int(...)\<close> holds the integer.
\<close>

record vehicle =
  vehicle_id :: string
  vtype :: string
  max_capacity_weight :: rat
  max_capacity_items :: int
  remaining_capacity_weight :: rat
  remaining_capacity_items :: int
  current_position :: string
  status :: string

record item =
  item_id :: string
  price_per_kg :: rat
  weight :: rat
  item_type :: string

text \<open>An element of \<open>items_ids_and_quantities\<close>: keys \<open>Item ID\<close> and \<open>Quantity\<close>.\<close>

record request_line =
  line_item_id :: string
  quantity :: int

text \<open>The dictionary \<open>update_data\<close> built in \<open>select_vehicle\<close>.\<close>

record update_data =
  upd_vehicle_id :: string
  upd_type :: string
  upd_status :: string
  upd_remaining_weight :: rat
  upd_remaining_items :: int

text \<open>
  What \<open>select_vehicle\<close> prints: one line per load (vehicle id, vehicle type, units, item
  id, weight of the load) and the final shortage message.
\<close>

datatype message = Loaded string string int string rat | NotEnoughCapacity

section \<open>The vehicle store\<close>

text \<open>\<open>row.update(update_data)\<close> overwrites the five keys of \<open>update_data\<close>.\<close>

definition row_update :: "update_data \<Rightarrow> vehicle \<Rightarrow> vehicle" where
  "row_update u row =
     row\<lparr>vehicle_id := upd_vehicle_id u, vtype := upd_type u, status := upd_status u,
         remaining_capacity_weight := upd_remaining_weight u,
         remaining_capacity_items := upd_remaining_items u\<rparr>"

text \<open>
  \<open>MyCSV.update_data('Vehicle ID', search_value, update_data)\<close>: every row whose id
  matches is updated; the flag tells whether there was one.
\<close>

definition csv_update_data :: "string \<Rightarrow> update_data \<Rightarrow> vehicle list \<Rightarrow> bool \<times> vehicle list" where
  "csv_update_data search_value u rows =
     (list_ex (\<lambda>row. vehicle_id row = search_value) rows,
      map (\<lambda>row. if vehicle_id row = search_value then row_update u row else row) rows)"

text \<open>\<open>Vehicle.update_vehicle\<close> raises \<open>ValueError\<close> when no row matched.\<close>

definition update_vehicle :: "string \<Rightarrow> update_data \<Rightarrow> vehicle list \<Rightarrow> error + vehicle list" where
  "update_vehicle vid u rows =
     (case csv_update_data vid u rows of
        (updated, rows') \<Rightarrow> if \<not> updated then Inl ValueError else Inr rows')"

section \<open>select_vehicle\<close>

text \<open>
  The local variables of \<open>select_vehicle\<close> that the loops change, the vehicle store and
  the printed output.
\<close>

record alloc_state =
  remaining_weight :: rat
  remaining_items :: int
  remaining_weight_capacity :: rat
  remaining_item_capacity :: int
  vehicle_rows :: "vehicle list"
  updates :: "update_data list"
  printed :: "message list"

text \<open>\<open>next((i for i in items if i['ID'] == item_id), None)\<close>\<close>

definition find_item :: "item list \<Rightarrow> string \<Rightarrow> item option" where
  "find_item items iid = find (\<lambda>i. item_id i = iid) items"

text \<open>
  \<open>loadable_items = min(quantity, max_items_by_capacity,
  int(max_weight_by_capacity / item_weight))\<close>
\<close>

definition loadable_items :: "alloc_state \<Rightarrow> int \<Rightarrow> rat \<Rightarrow> error + int" where
  "loadable_items s qty item_weight =
     (let max_items_by_capacity = min (remaining_items s) (remaining_item_capacity s);
          max_weight_by_capacity = min (remaining_weight s) (remaining_weight_capacity s)
      in case float_div max_weight_by_capacity item_weight of
           Inl e \<Rightarrow> Inl e
         | Inr q \<Rightarrow> Inr (min qty (min max_items_by_capacity (py_int q))))"

text \<open>The body of \<open>if loadable_items > 0:\<close>.\<close>

definition make_update :: "vehicle \<Rightarrow> rat \<Rightarrow> int \<Rightarrow> update_data" where
  "make_update vehicle_data rwc ric =
     \<lparr>upd_vehicle_id = vehicle_id vehicle_data, upd_type = vtype vehicle_data,
      upd_status = ''in_use'', upd_remaining_weight = rwc, upd_remaining_items = ric\<rparr>"

definition load :: "vehicle \<Rightarrow> request_line \<Rightarrow> item \<Rightarrow> int \<Rightarrow> alloc_state
    \<Rightarrow> error + (request_line \<times> alloc_state)" where
  "load vehicle_data item_data it n s =
     (let loadable_weight = float_mul_int n (weight it);
          rwc = float_sub (remaining_weight_capacity s) loadable_weight;
          ric = remaining_item_capacity s - n;
          u = make_update vehicle_data rwc ric
      in case update_vehicle (vehicle_id vehicle_data) u (vehicle_rows s) of
           Inl e \<Rightarrow> Inl e
         | Inr rows \<Rightarrow>
             Inr (item_data\<lparr>quantity := quantity item_data - n\<rparr>,
                  s\<lparr>remaining_weight := float_sub (remaining_weight s) loadable_weight,
                    remaining_items := remaining_items s - n,
                    remaining_weight_capacity := rwc,
                    remaining_item_capacity := ric,
                    vehicle_rows := rows,
                    updates := updates s @ [u],
                    printed := printed s @
                      [Loaded (vehicle_id vehicle_data) (vtype vehicle_data) n
                         (line_item_id item_data) loadable_weight]\<rparr>))"

text \<open>One pass of the inner loop \<open>for item_data in items_ids_and_quantities\<close>.\<close>

definition load_line :: "item list \<Rightarrow> vehicle \<Rightarrow> request_line \<Rightarrow> alloc_state
    \<Rightarrow> error + (request_line \<times> alloc_state)" where
  "load_line items vehicle_data item_data s =
     (case find_item items (line_item_id item_data) of
        None \<Rightarrow> Inr (item_data, s)
      | Some it \<Rightarrow>
          if vtype vehicle_data = ''Bike'' \<and> item_type it = ''fragile'' then Inr (item_data, s)
          else (case loadable_items s (quantity item_data) (weight it) of
                  Inl e \<Rightarrow> Inl e
                | Inr n \<Rightarrow> if 0 < n then load vehicle_data item_data it n s
                           else Inr (item_data, s)))"

fun load_lines :: "item list \<Rightarrow> vehicle \<Rightarrow> request_line list \<Rightarrow> alloc_state
    \<Rightarrow> error + (request_line list \<times> alloc_state)" where
  "load_lines items vehicle_data [] s = Inr ([], s)"
| "load_lines items vehicle_data (item_data # rest) s =
     (case load_line items vehicle_data item_data s of
        Inl e \<Rightarrow> Inl e
      | Inr (item_data', s') \<Rightarrow>
          (case load_lines items vehicle_data rest s' of
             Inl e \<Rightarrow> Inl e
           | Inr (rest', s'') \<Rightarrow> Inr (item_data' # rest', s'')))"

text \<open>\<open>Skip vehicles that are already full or in use\<close>: the test before \<open>continue\<close>.\<close>

definition skipped :: "vehicle \<Rightarrow> bool" where
  "skipped vehicle_data \<longleftrightarrow>
     remaining_capacity_weight vehicle_data \<le> 0 \<or> remaining_capacity_items vehicle_data \<le> 0
     \<or> status vehicle_data = ''in_use''"

text \<open>The outer loop \<open>for vehicle_data in vehicles\<close>, with its \<open>break\<close> and \<open>continue\<close>.\<close>

fun load_vehicles :: "item list \<Rightarrow> vehicle list \<Rightarrow> request_line list \<Rightarrow> alloc_state
    \<Rightarrow> error + (request_line list \<times> alloc_state)" where
  "load_vehicles items [] lines s = Inr (lines, s)"
| "load_vehicles items (vehicle_data # rest) lines s =
     (if remaining_weight s \<le> 0 \<and> remaining_items s \<le> 0 then Inr (lines, s)
      else if skipped vehicle_data then load_vehicles items rest lines s
      else (case load_lines items vehicle_data lines
                   (s\<lparr>remaining_weight_capacity := remaining_capacity_weight vehicle_data,
                      remaining_item_capacity := remaining_capacity_items vehicle_data\<rparr>) of
              Inl e \<Rightarrow> Inl e
            | Inr (lines', s') \<Rightarrow> load_vehicles items rest lines' s'))"

text \<open>
  What a call leaves behind: the returned list \<open>updates\<close>, the vehicle store, the request
  lines (their quantities are decremented in place) and the printed output.
\<close>

record outcome =
  returned :: "update_data list"
  store :: "vehicle list"
  lines_after :: "request_line list"
  printout :: "message list"

text \<open>The sort key \<open>(int(v['Max Capacity (Item Count)']), float(v['Max Capacity (Weight)']))\<close>.\<close>

definition sort_key_of :: "vehicle \<Rightarrow> int \<times> rat" where
  "sort_key_of v = (max_capacity_items v, max_capacity_weight v)"

definition initial_state :: "rat \<Rightarrow> int \<Rightarrow> vehicle list \<Rightarrow> alloc_state" where
  "initial_state total_weight item_count rows =
     \<lparr>remaining_weight = total_weight, remaining_items = item_count,
      remaining_weight_capacity = 0, remaining_item_capacity = 0,
      vehicle_rows = rows, updates = [], printed = []\<rparr>"

text \<open>Everything after the sort, for the vehicles in a given order.\<close>

definition allocate :: "vehicle list \<Rightarrow> rat \<Rightarrow> int \<Rightarrow> request_line list \<Rightarrow> vehicle list
    \<Rightarrow> item list \<Rightarrow> error + outcome" where
  "allocate vehicles total_weight item_count lines rows items =
     (case load_vehicles items vehicles lines (initial_state total_weight item_count rows) of
        Inl e \<Rightarrow> Inl e
      | Inr (lines', s) \<Rightarrow>
          Inr \<lparr>returned = updates s, store = vehicle_rows s, lines_after = lines',
               printout = (if 0 < remaining_items s then printed s @ [NotEnoughCapacity]
                           else printed s)\<rparr>)"

text \<open>
  \<open>select_vehicle(total_weight, item_count, items_ids_and_quantities)\<close>, with the contents
  of the vehicle store and of the item store as further arguments.
\<close>

definition select_vehicle :: "rat \<Rightarrow> int \<Rightarrow> request_line list \<Rightarrow> vehicle list \<Rightarrow> item list
    \<Rightarrow> error + outcome" where
  "select_vehicle total_weight item_count lines rows items =
     allocate (sort_key sort_key_of rows) total_weight item_count lines rows items"

section \<open>Auxiliary definitions\<close>

text \<open>The state that \<open>load\<close> leaves when the row of the vehicle is found in the store.\<close>

definition loaded_state :: "vehicle \<Rightarrow> request_line \<Rightarrow> item \<Rightarrow> int \<Rightarrow> alloc_state \<Rightarrow> alloc_state" where
  "loaded_state v l it n s =
     (let lw = float_mul_int n (weight it);
          rwc = float_sub (remaining_weight_capacity s) lw;
          ric = remaining_item_capacity s - n;
          u = make_update v rwc ric
      in s\<lparr>remaining_weight := float_sub (remaining_weight s) lw,
           remaining_items := remaining_items s - n,
           remaining_weight_capacity := rwc,
           remaining_item_capacity := ric,
           vehicle_rows := map (\<lambda>row. if vehicle_id row = vehicle_id v then row_update u row else row) (vehicle_rows s),
           updates := updates s @ [u],
           printed := printed s @ [Loaded (vehicle_id v) (vtype v) n (line_item_id l) lw]\<rparr>)"

text \<open>The test before \<open>break\<close>.\<close>

definition finished :: "alloc_state \<Rightarrow> bool" where
  "finished s \<longleftrightarrow> remaining_weight s \<le> 0 \<and> remaining_items s \<le> 0"

text \<open>The capacities of a vehicle, read when the outer loop reaches it.\<close>

definition enter :: "vehicle \<Rightarrow> alloc_state \<Rightarrow> alloc_state" where
  "enter v s = s\<lparr>remaining_weight_capacity := remaining_capacity_weight v,
                 remaining_item_capacity := remaining_capacity_items v\<rparr>"

text \<open>
  \<open>divisible items v iid\<close>: processing the item \<open>iid\<close> against the vehicle \<open>v\<close> does not
  divide by zero.
\<close>

definition divisible :: "item list \<Rightarrow> vehicle \<Rightarrow> string \<Rightarrow> bool" where
  "divisible items v iid \<longleftrightarrow>
     (case find_item items iid of
        None \<Rightarrow> True
      | Some it \<Rightarrow> (vtype v = ''Bike'' \<and> item_type it = ''fragile'') \<or> weight it \<noteq> 0)"

text \<open>
  The precondition on unit weights: each item that a request line resolves to has a
  positive weight, unless the fragile-on-bike rule excludes it on every vehicle that is
  not skipped.
\<close>

definition positive_weights :: "item list \<Rightarrow> vehicle list \<Rightarrow> request_line list \<Rightarrow> bool" where
  "positive_weights items rows ls \<longleftrightarrow>
     list_all (\<lambda>l. case find_item items (line_item_id l) of
                   None \<Rightarrow> True
                 | Some it \<Rightarrow>
                     list_all (\<lambda>v. skipped v \<or> (vtype v = ''Bike'' \<and> item_type it = ''fragile'')
                                 \<or> 0 < weight it) rows) ls"

subsection \<open>Example data\<close>

text \<open>The fleet and the items of the specification's scenarios A and B.\<close>

definition bike_A :: vehicle where
  "bike_A = \<lparr>vehicle_id = ''V1001'', vtype = ''Bike'', max_capacity_weight = 10,
     max_capacity_items = 2, remaining_capacity_weight = 10, remaining_capacity_items = 2,
     current_position = ''Oslo, Norway'', status = ''free''\<rparr>"

definition ship_A :: vehicle where
  "ship_A = \<lparr>vehicle_id = ''V1002'', vtype = ''Ship'', max_capacity_weight = 100000,
     max_capacity_items = 10000, remaining_capacity_weight = 100000,
     remaining_capacity_items = 10000, current_position = ''Oslo, Norway'', status = ''free''\<rparr>"

definition truck_A :: vehicle where
  "truck_A = \<lparr>vehicle_id = ''V1003'', vtype = ''Truck'', max_capacity_weight = 100,
     max_capacity_items = 10, remaining_capacity_weight = 100, remaining_capacity_items = 10,
     current_position = ''Oslo, Norway'', status = ''free''\<rparr>"

definition solid_2kg :: item where
  "solid_2kg = \<lparr>item_id = ''I2001'', price_per_kg = 5, weight = 2, item_type = ''solid''\<rparr>"

definition fragile_1kg :: item where
  "fragile_1kg = \<lparr>item_id = ''I2002'', price_per_kg = 5, weight = 1, item_type = ''fragile''\<rparr>"

text \<open>An item of weight 0, which \<open>Validation.check_positive_float\<close> accepts.\<close>

definition weightless :: item where
  "weightless = \<lparr>item_id = ''I2003'', price_per_kg = 5, weight = 0, item_type = ''solid''\<rparr>"

definition line :: "string \<Rightarrow> int \<Rightarrow> request_line" where
  "line iid n = \<lparr>line_item_id = iid, quantity = n\<rparr>"

subsection \<open>Reading the output\<close>

text \<open>The lines of the output that report a load.\<close>

definition loads :: "message list \<Rightarrow> message list" where
  "loads ms = filter (\<lambda>m. m \<noteq> NotEnoughCapacity) ms"

text \<open>
  \<open>announces u m\<close>: the line \<open>m\<close> is the one printed with the allocation record \<open>u\<close>: it
  names the record's vehicle and reports a positive number of units.
\<close>

definition announces :: "update_data \<Rightarrow> message \<Rightarrow> bool" where
  "announces u m =
     (case m of
        Loaded vid vt n iid lw \<Rightarrow> vid = upd_vehicle_id u \<and> vt = upd_type u \<and> 0 < n
      | NotEnoughCapacity \<Rightarrow> False)"

text \<open>\<open>fragile_on_bike items m\<close>: the line \<open>m\<close> reports units of a fragile item on a bike.\<close>

definition fragile_on_bike :: "item list \<Rightarrow> message \<Rightarrow> bool" where
  "fragile_on_bike items m =
     (case m of
        Loaded vid vt n iid lw \<Rightarrow>
          vt = ''Bike'' \<and>
          (case find_item items iid of None \<Rightarrow> False | Some it \<Rightarrow> item_type it = ''fragile'')
      | NotEnoughCapacity \<Rightarrow> False)"

text \<open>
  \<open>load_weight items m\<close>: the weight that the line \<open>m\<close> reports is the product of its units
  and the unit weight of its item.
\<close>

definition load_weight :: "item list \<Rightarrow> message \<Rightarrow> bool" where
  "load_weight items m =
     (case m of
        Loaded vid vt n iid lw \<Rightarrow>
          (case find_item items iid of
             None \<Rightarrow> False
           | Some it \<Rightarrow> lw = float_mul_int n (weight it))
      | NotEnoughCapacity \<Rightarrow> False)"

definition record_of_load :: "item list \<Rightarrow> update_data \<Rightarrow> message \<Rightarrow> bool" where
  "record_of_load items u m \<longleftrightarrow>
     announces u m \<and> \<not> fragile_on_bike items m \<and> load_weight items m \<and> upd_status u = ''in_use''"

text \<open>
  Scenario B of the specification: three units of the fragile item, two-wheeled vehicle
  and bulk vehicle free.  The bike takes nothing, the ship takes all three.
\<close>

definition outcome_B :: outcome where
  "outcome_B =
     \<lparr>returned = [\<lparr>upd_vehicle_id = ''V1002'', upd_type = ''Ship'', upd_status = ''in_use'',
                    upd_remaining_weight = 99997, upd_remaining_items = 9997\<rparr>],
      store = [ship_A\<lparr>status := ''in_use'', remaining_capacity_weight := 99997,
                      remaining_capacity_items := 9997\<rparr>, bike_A],
      lines_after = [line ''I2002'' 0],
      printout = [Loaded ''V1002'' ''Ship'' 3 ''I2002'' 3]\<rparr>"

text \<open>The two loops of \<open>select_vehicle\<close>, before the result is put together.\<close>

definition run :: "rat \<Rightarrow> int \<Rightarrow> request_line list \<Rightarrow> vehicle list \<Rightarrow> item list
    \<Rightarrow> error + (request_line list \<times> alloc_state)" where
  "run tw ic ls rows items =
     load_vehicles items (sort_key sort_key_of rows) ls (initial_state tw ic rows)"

text \<open>
  The order of the sort key: ascending maximal item count, and ascending maximal weight
  among vehicles of the same maximal item count.
\<close>

definition considered_before :: "vehicle \<Rightarrow> vehicle \<Rightarrow> bool" where
  "considered_before a b \<longleftrightarrow>
     max_capacity_items a < max_capacity_items b \<or>
     (max_capacity_items a = max_capacity_items b \<and> max_capacity_weight a \<le> max_capacity_weight b)"

text \<open>The vehicles that the outer loop does not skip.\<close>

definition eligible :: "vehicle list \<Rightarrow> vehicle list" where
  "eligible rows = filter (\<lambda>v. \<not> skipped v) rows"

text \<open>A request line resolves when its item id is in the catalog.\<close>

definition resolves :: "item list \<Rightarrow> request_line \<Rightarrow> bool" where
  "resolves items l \<longleftrightarrow> find_item items (line_item_id l) \<noteq> None"

text \<open>An outcome without the request lines that do not resolve.\<close>

definition without_unresolved :: "item list \<Rightarrow> error + outcome \<Rightarrow> error + outcome" where
  "without_unresolved items x =
     (case x of
        Inl e \<Rightarrow> Inl e
      | Inr r \<Rightarrow> Inr (r\<lparr>lines_after := filter (resolves items) (lines_after r)\<rparr>))"

text \<open>
  Scenario D of the specification: a request line whose item id is not in the catalog,
  followed by three units of the solid item (scenario A).  The bike takes two units,
  the ship one; the five units of the unknown item stay in the running item count.
\<close>

definition outcome_D :: outcome where
  "outcome_D =
     \<lparr>returned = [\<lparr>upd_vehicle_id = ''V1001'', upd_type = ''Bike'', upd_status = ''in_use'',
                    upd_remaining_weight = 6, upd_remaining_items = 0\<rparr>,
                  \<lparr>upd_vehicle_id = ''V1002'', upd_type = ''Ship'', upd_status = ''in_use'',
                    upd_remaining_weight = 99998, upd_remaining_items = 9999\<rparr>],
      store = [ship_A\<lparr>status := ''in_use'', remaining_capacity_weight := 99998,
                      remaining_capacity_items := 9999\<rparr>,
               bike_A\<lparr>status := ''in_use'', remaining_capacity_weight := 6,
                      remaining_capacity_items := 0\<rparr>],
      lines_after = [line ''I9999'' 5, line ''I2001'' 0],
      printout = [Loaded ''V1001'' ''Bike'' 2 ''I2001'' 4, Loaded ''V1002'' ''Ship'' 1 ''I2001'' 2,
                  NotEnoughCapacity]\<rparr>"

definition keep_resolved :: "item list \<Rightarrow> error + (request_line list \<times> alloc_state)
    \<Rightarrow> error + (request_line list \<times> alloc_state)" where
  "keep_resolved items x =
     (case x of Inl e \<Rightarrow> Inl e | Inr (ls, s) \<Rightarrow> Inr (filter (resolves items) ls, s))"

text \<open>The running item count when the loops end: the units that no vehicle took.\<close>

definition remainder :: "rat \<Rightarrow> int \<Rightarrow> request_line list \<Rightarrow> vehicle list \<Rightarrow> item list
    \<Rightarrow> int option" where
  "remainder tw ic ls rows items =
     (case run tw ic ls rows items of Inl e \<Rightarrow> None | Inr (ls', s) \<Rightarrow> Some (remaining_items s))"

text \<open>The last record of a list that names a given vehicle.\<close>

definition last_record :: "string \<Rightarrow> update_data list \<Rightarrow> update_data option" where
  "last_record vid us = find (\<lambda>u. upd_vehicle_id u = vid) (rev us)"

text \<open>
  \<open>reflects rows0 us row\<close>: the row of the store carries the status and the remaining
  capacities of the last record that names its vehicle; a row that no record names is
  one of the rows \<open>rows0\<close>.
\<close>

definition reflects :: "vehicle list \<Rightarrow> update_data list \<Rightarrow> vehicle \<Rightarrow> bool" where
  "reflects rows0 us row =
     (case last_record (vehicle_id row) us of
        None \<Rightarrow> row \<in> set rows0
      | Some u \<Rightarrow>
          status row = upd_status u \<and> vtype row = upd_type u \<and>
          remaining_capacity_weight row = upd_remaining_weight u \<and>
          remaining_capacity_items row = upd_remaining_items u)"

text \<open>One truck, one unit of the solid item and one unit of the fragile item.\<close>

definition outcome_two_lines :: outcome where
  "outcome_two_lines =
     \<lparr>returned = [\<lparr>upd_vehicle_id = ''V1003'', upd_type = ''Truck'', upd_status = ''in_use'',
                    upd_remaining_weight = 98, upd_remaining_items = 9\<rparr>,
                  \<lparr>upd_vehicle_id = ''V1003'', upd_type = ''Truck'', upd_status = ''in_use'',
                    upd_remaining_weight = 97, upd_remaining_items = 8\<rparr>],
      store = [truck_A\<lparr>status := ''in_use'', remaining_capacity_weight := 97,
                       remaining_capacity_items := 8\<rparr>],
      lines_after = [line ''I2001'' 0, line ''I2002'' 0],
      printout = [Loaded ''V1003'' ''Truck'' 1 ''I2001'' 2, Loaded ''V1003'' ''Truck'' 1 ''I2002'' 1]\<rparr>"

text \<open>
  A first item-addition call of an order: three units of the solid item; the fleet is the
  truck, or the truck and the ship.
\<close>

definition truck_loaded :: vehicle where
  "truck_loaded = truck_A\<lparr>status := ''in_use'', remaining_capacity_weight := 94,
                          remaining_capacity_items := 7\<rparr>"

definition outcome_first_call :: "vehicle list \<Rightarrow> outcome" where
  "outcome_first_call others =
     \<lparr>returned = [\<lparr>upd_vehicle_id = ''V1003'', upd_type = ''Truck'', upd_status = ''in_use'',
                    upd_remaining_weight = 94, upd_remaining_items = 7\<rparr>],
      store = truck_loaded # others,
      lines_after = [line ''I2001'' 0],
      printout = [Loaded ''V1003'' ''Truck'' 3 ''I2001'' 6]\<rparr>"

text \<open>Scenario C of the specification: the only vehicle is a bike that is in use.\<close>

definition bike_in_use :: vehicle where
  "bike_in_use = bike_A\<lparr>status := ''in_use''\<rparr>"

text \<open>
  The loadable quantity in the words of the specification:
  \<open>min(line.quantity, remainingOrderItemCount, vehicleRemainingItemCapacity,
  floor(min(remainingOrderWeight, vehicleRemainingWeightCapacity) / itemUnitWeight))\<close>,
  the division being the division of floats.
\<close>

definition spec_loadable :: "int \<Rightarrow> int \<Rightarrow> int \<Rightarrow> rat \<Rightarrow> rat \<Rightarrow> rat \<Rightarrow> int" where
  "spec_loadable qty order_items vehicle_items order_weight vehicle_weight unit_weight =
     min qty (min order_items (min vehicle_items
       \<lfloor>fl (min order_weight vehicle_weight / unit_weight)\<rfloor>))"

text \<open>
  A truck of 100.8 kg and an item of 4.2 kg: the floats \<open>100.8\<close> and \<open>4.2\<close>.  In Python,
  \<open>100.8 / 4.2 == 24.0\<close>, \<open>24 * 4.2 == 100.80000000000001\<close> and
  \<open>100.8 - 24 * 4.2 == -1.4210854715202004e-14\<close>, which is \<open>- 2 ** -46\<close>.
\<close>

definition truck_C :: vehicle where
  "truck_C = \<lparr>vehicle_id = ''V1004'', vtype = ''Truck'', max_capacity_weight = fl (1008 / 10),
     max_capacity_items = 50, remaining_capacity_weight = fl (1008 / 10),
     remaining_capacity_items = 50, current_position = ''Oslo, Norway'', status = ''free''\<rparr>"

definition solid_4200g :: item where
  "solid_4200g = \<lparr>item_id = ''I2004'', price_per_kg = 5, weight = fl (42 / 10),
     item_type = ''solid''\<rparr>"

text \<open>
  The order of 24 units of 4.2 kg and one unit of 2 kg; its total weight as
  \<open>add_item_to_order\<close> sums it, \<open>24 * 4.2 + 1 * 2.0\<close>.
\<close>

definition total_weight_C :: rat where
  "total_weight_C = fl (fl (24 * fl (42 / 10)) + 2)"

text \<open>The state of the loops after the truck has taken the 24 units of the first line.\<close>

definition after_first_line :: alloc_state where
  "after_first_line =
     \<lparr>remaining_weight = 2, remaining_items = 1,
      remaining_weight_capacity = - (1 / 70368744177664), remaining_item_capacity = 26,
      vehicle_rows = [truck_C\<lparr>status := ''in_use'',
                              remaining_capacity_weight := - (1 / 70368744177664),
                              remaining_capacity_items := 26\<rparr>],
      updates = [\<lparr>upd_vehicle_id = ''V1004'', upd_type = ''Truck'', upd_status = ''in_use'',
                   upd_remaining_weight = - (1 / 70368744177664), upd_remaining_items = 26\<rparr>],
      printed = [Loaded ''V1004'' ''Truck'' 24 ''I2004'' (fl (24 * fl (42 / 10)))]\<rparr>"

text \<open>
  The capacity invariant of the specification, \<open>0 \<le> remaining \<le> max\<close> for the weight and
  for the item count of a vehicle, and the part of it that holds after every call.
\<close>

definition within_capacity :: "vehicle \<Rightarrow> bool" where
  "within_capacity v \<longleftrightarrow>
     0 \<le> remaining_capacity_weight v \<and> remaining_capacity_weight v \<le> max_capacity_weight v \<and>
     0 \<le> remaining_capacity_items v \<and> remaining_capacity_items v \<le> max_capacity_items v"

definition capacity_kept :: "vehicle \<Rightarrow> bool" where
  "capacity_kept v \<longleftrightarrow>
     remaining_capacity_weight v \<le> max_capacity_weight v \<and>
     0 \<le> remaining_capacity_items v \<and> remaining_capacity_items v \<le> max_capacity_items v"

text \<open>The same for an allocation record, against the vehicle of the fleet that it names.\<close>

definition record_kept :: "vehicle list \<Rightarrow> update_data \<Rightarrow> bool" where
  "record_kept rows u \<longleftrightarrow>
     list_ex (\<lambda>v. vehicle_id v = upd_vehicle_id u \<and>
                 upd_remaining_weight u \<le> max_capacity_weight v \<and>
                 0 \<le> upd_remaining_items u \<and> upd_remaining_items u \<le> max_capacity_items v) rows"

text \<open>A rational number that is a float: rounding leaves it as it is.\<close>

definition is_float :: "rat \<Rightarrow> bool" where
  "is_float x \<longleftrightarrow> fl x = x"

text \<open>\<open>same_vehicle rows row\<close>: the row has the id and the maximal capacities of a row of \<open>rows\<close>.\<close>

definition same_vehicle :: "vehicle list \<Rightarrow> vehicle \<Rightarrow> bool" where
  "same_vehicle rows row \<longleftrightarrow>
     list_ex (\<lambda>v. vehicle_id v = vehicle_id row \<and>
                 max_capacity_weight v = max_capacity_weight row \<and>
                 max_capacity_items v = max_capacity_items row) rows"

text \<open>
  The truck of 100.8 kg after it has taken 24 units of 4.2 kg, the total weight being
  \<open>24 * 4.2\<close>.
\<close>

definition outcome_C :: outcome where
  "outcome_C =
     \<lparr>returned = [\<lparr>upd_vehicle_id = ''V1004'', upd_type = ''Truck'', upd_status = ''in_use'',
                    upd_remaining_weight = - (1 / 70368744177664), upd_remaining_items = 26\<rparr>],
      store = [truck_C\<lparr>status := ''in_use'',
                       remaining_capacity_weight := - (1 / 70368744177664),
                       remaining_capacity_items := 26\<rparr>],
      lines_after = [line ''I2004'' 0],
      printout = [Loaded ''V1004'' ''Truck'' 24 ''I2004'' (fl (24 * fl (42 / 10)))]\<rparr>"

text \<open>What the loops keep true of the store and of the records, and of the capacities
  of the vehicle that is being loaded.\<close>

definition store_kept :: "vehicle list \<Rightarrow> alloc_state \<Rightarrow> bool" where
  "store_kept rows s \<longleftrightarrow>
     list_all (\<lambda>row. capacity_kept row \<and> same_vehicle rows row) (vehicle_rows s) \<and>
     list_all (record_kept rows) (updates s)"

definition pass_kept :: "vehicle list \<Rightarrow> vehicle \<Rightarrow> alloc_state \<Rightarrow> bool" where
  "pass_kept rows v s \<longleftrightarrow>
     0 \<le> remaining_item_capacity s \<and> remaining_item_capacity s \<le> max_capacity_items v \<and>
     remaining_weight_capacity s \<le> max_capacity_weight v \<and> store_kept rows s"

subsection \<open>Loads and capacities\<close>

text \<open>What a printed line reports: the vehicle, the units and the weight of a load.\<close>

definition reported_vehicle :: "message \<Rightarrow> string option" where
  "reported_vehicle m = (case m of Loaded vid vt n iid lw \<Rightarrow> Some vid | NotEnoughCapacity \<Rightarrow> None)"

definition reported_units :: "message \<Rightarrow> int" where
  "reported_units m = (case m of Loaded vid vt n iid lw \<Rightarrow> n | NotEnoughCapacity \<Rightarrow> 0)"

definition reported_weight :: "message \<Rightarrow> rat" where
  "reported_weight m = (case m of Loaded vid vt n iid lw \<Rightarrow> lw | NotEnoughCapacity \<Rightarrow> 0)"

text \<open>The loads of one vehicle, in the order in which they were printed.\<close>

definition loads_of :: "string \<Rightarrow> message list \<Rightarrow> message list" where
  "loads_of vid ms = filter (\<lambda>m. reported_vehicle m = Some vid) ms"

text \<open>
  A row of the store after the loads \<open>ms\<close> of its vehicle: without a load it is as it
  was; otherwise it is in use, the weights of the loads are subtracted from its remaining
  weight capacity one after the other, as floats, and the units of the loads are
  subtracted from its remaining item capacity.
\<close>

definition settle :: "vehicle \<Rightarrow> message list \<Rightarrow> vehicle" where
  "settle row ms =
     (if ms = [] then row
      else row\<lparr>status := ''in_use'',
               remaining_capacity_weight :=
                 foldl float_sub (remaining_capacity_weight row) (map reported_weight ms),
               remaining_capacity_items :=
                 remaining_capacity_items row - sum_list (map reported_units ms)\<rparr>)"

text \<open>
  The two sums of the specification's conservation property, as sums of rational numbers:
  the decrements of the remaining weight capacities, row by row, and the units consumed
  from the request lines times the unit weights, line by line.
\<close>

definition weight_decrements :: "vehicle list \<Rightarrow> vehicle list \<Rightarrow> rat" where
  "weight_decrements rows rows' =
     sum_list (map2 (\<lambda>a b. remaining_capacity_weight a - remaining_capacity_weight b) rows rows')"

definition consumed_weight :: "item list \<Rightarrow> request_line list \<Rightarrow> request_line list \<Rightarrow> rat" where
  "consumed_weight items ls ls' =
     sum_list (map2 (\<lambda>l l'. case find_item items (line_item_id l) of
                              None \<Rightarrow> 0
                            | Some it \<Rightarrow> of_int (quantity l - quantity l') * weight it) ls ls')"

text \<open>What the invariant of the loops says of the store, and of the vehicle being loaded.\<close>

definition settled :: "vehicle list \<Rightarrow> alloc_state \<Rightarrow> bool" where
  "settled rows s \<longleftrightarrow>
     vehicle_rows s = map (\<lambda>row. settle row (loads_of (vehicle_id row) (printed s))) rows"

definition untouched :: "vehicle list \<Rightarrow> alloc_state \<Rightarrow> bool" where
  "untouched rest s \<longleftrightarrow> list_all (\<lambda>v. loads_of (vehicle_id v) (printed s) = []) rest"

definition charged :: "vehicle \<Rightarrow> alloc_state \<Rightarrow> bool" where
  "charged v s \<longleftrightarrow>
     remaining_weight_capacity s =
       foldl float_sub (remaining_capacity_weight v)
         (map reported_weight (loads_of (vehicle_id v) (printed s))) \<and>
     remaining_item_capacity s =
       remaining_capacity_items v - sum_list (map reported_units (loads_of (vehicle_id v) (printed s)))"

text \<open>
  Seven units of 0.1 kg for the fleet of scenario A.  In Python \<open>7 * 0.1\<close> is
  \<open>0.7000000000000001\<close>; the bike takes two units (\<open>10 - 0.2 == 9.8\<close>), the ship five.
\<close>

definition solid_100g :: item where
  "solid_100g = \<lparr>item_id = ''I2005'', price_per_kg = 5, weight = fl (1 / 10),
     item_type = ''solid''\<rparr>"

definition outcome_E :: outcome where
  "outcome_E =
     \<lparr>returned = [\<lparr>upd_vehicle_id = ''V1001'', upd_type = ''Bike'', upd_status = ''in_use'',
                    upd_remaining_weight = fl (98 / 10), upd_remaining_items = 0\<rparr>,
                  \<lparr>upd_vehicle_id = ''V1002'', upd_type = ''Ship'', upd_status = ''in_use'',
                    upd_remaining_weight = 199999 / 2, upd_remaining_items = 9995\<rparr>],
      store = [ship_A\<lparr>status := ''in_use'', remaining_capacity_weight := 199999 / 2,
                      remaining_capacity_items := 9995\<rparr>,
               bike_A\<lparr>status := ''in_use'', remaining_capacity_weight := fl (98 / 10),
                      remaining_capacity_items := 0\<rparr>],
      lines_after = [line ''I2005'' 0],
      printout = [Loaded ''V1001'' ''Bike'' 2 ''I2005'' (fl (2 / 10)),
                  Loaded ''V1002'' ''Ship'' 5 ''I2005'' (1 / 2)]\<rparr>"

text \<open>The running counters of the order, in terms of the loads printed so far.\<close>

definition counted :: "rat \<Rightarrow> int \<Rightarrow> alloc_state \<Rightarrow> bool" where
  "counted tw ic s \<longleftrightarrow>
     remaining_weight s = foldl float_sub tw (map reported_weight (printed s)) \<and>
     remaining_items s = ic - sum_list (map reported_units (printed s))"

section \<open>Basic facts\<close>


lemma update_vehicle_eq:
  "update_vehicle vid u rows =
     (if vid \<in> vehicle_id ` set rows
      then Inr (map (\<lambda>row. if vehicle_id row = vid then row_update u row else row) rows)
      else Inl ValueError)"
  by (auto simp: update_vehicle_def csv_update_data_def list_ex_iff)

lemma load_Inr:
  "load v l it n s = Inr (l', s') \<longleftrightarrow>
     (vehicle_id v \<in> vehicle_id ` set (vehicle_rows s) \<and>
      l' = l\<lparr>quantity := quantity l - n\<rparr> \<and> s' = loaded_state v l it n s)"
  unfolding load_def loaded_state_def Let_def update_vehicle_eq
  by (cases "vehicle_id v \<in> vehicle_id ` set (vehicle_rows s)") (simp_all add: eq_commute)

lemma load_line_Inr:
  "load_line items v l s = Inr (l', s') \<Longrightarrow>
     (l' = l \<and> s' = s) \<or>
     (\<exists>it n. find_item items (line_item_id l) = Some it \<and>
        \<not> (vtype v = ''Bike'' \<and> item_type it = ''fragile'') \<and>
        loadable_items s (quantity l) (weight it) = Inr n \<and> 0 < n \<and>
        vehicle_id v \<in> vehicle_id ` set (vehicle_rows s) \<and>
        l' = l\<lparr>quantity := quantity l - n\<rparr> \<and> s' = loaded_state v l it n s)"
  unfolding load_line_def
  by (auto split: option.splits if_splits sum.splits simp: load_Inr)


lemma loaded_state_simps [simp]:
  "remaining_weight (loaded_state v l it n s) = float_sub (remaining_weight s) (float_mul_int n (weight it))"
  "remaining_items (loaded_state v l it n s) = remaining_items s - n"
  "remaining_weight_capacity (loaded_state v l it n s) =
     float_sub (remaining_weight_capacity s) (float_mul_int n (weight it))"
  "remaining_item_capacity (loaded_state v l it n s) = remaining_item_capacity s - n"
  "updates (loaded_state v l it n s) =
     updates s @ [make_update v
        (float_sub (remaining_weight_capacity s) (float_mul_int n (weight it)))
        (remaining_item_capacity s - n)]"
  "printed (loaded_state v l it n s) =
     printed s @ [Loaded (vehicle_id v) (vtype v) n (line_item_id l) (float_mul_int n (weight it))]"
  by (simp_all add: loaded_state_def Let_def)

lemma load_lines_state_inv:
  assumes "load_lines items v ls s = Inr (ls', s')" and "P s"
    and step: "\<And>l s l' s'. P s \<Longrightarrow> load_line items v l s = Inr (l', s') \<Longrightarrow> P s'"
  shows "P s'"
  using assms(1,2)
proof (induction ls arbitrary: s ls' s')
  case Nil
  then show ?case by simp
next
  case (Cons l ls)
  from Cons.prems(1) obtain l1 s1 ls1 where
    1: "load_line items v l s = Inr (l1, s1)" and 2: "load_lines items v ls s1 = Inr (ls1, s')"
    by (auto split: sum.splits)
  from step [OF Cons.prems(2) 1] have "P s1" .
  from Cons.IH [OF 2 this] show ?case .
qed

lemma load_vehicles_Cons:
  "load_vehicles items (v # vs) ls s =
     (if finished s then Inr (ls, s)
      else if skipped v then load_vehicles items vs ls s
      else (case load_lines items v ls (enter v s) of
              Inl e \<Rightarrow> Inl e
            | Inr (ls', s') \<Rightarrow> load_vehicles items vs ls' s'))"
  by (simp add: finished_def enter_def)

declare load_vehicles.simps(2) [simp del]

lemma load_vehicles_state_inv:
  assumes run: "load_vehicles items vs ls s = Inr (ls', s')" and init: "P s"
    and enter: "\<And>v s. v \<in> set vs \<Longrightarrow> \<not> skipped v \<Longrightarrow> P s \<Longrightarrow> Q v (enter v s)"
    and step: "\<And>v l s l' s'. v \<in> set vs \<Longrightarrow> \<not> skipped v \<Longrightarrow> Q v s \<Longrightarrow>
       load_line items v l s = Inr (l', s') \<Longrightarrow> Q v s'"
    and leave: "\<And>v s. v \<in> set vs \<Longrightarrow> Q v s \<Longrightarrow> P s"
  shows "P s'"
  using run init enter step leave
proof (induction vs arbitrary: s ls)
  case Nil
  then show ?case by simp
next
  case (Cons v vs)
  have IH: "P s'" if "load_vehicles items vs ls1 s1 = Inr (ls', s')" and "P s1" for ls1 s1
  proof (rule Cons.IH [OF that])
    show "Q w (enter w t)" if "w \<in> set vs" "\<not> skipped w" "P t" for w t
      using that Cons.prems(3) [of w t] by simp
    show "Q w t'" if "w \<in> set vs" "\<not> skipped w" "Q w t" "load_line items w l t = Inr (l', t')"
      for w l t l' t'
      using that Cons.prems(4) [of w t l l' t'] by simp
    show "P t" if "w \<in> set vs" "Q w t" for w t
      using that Cons.prems(5) [of w t] by simp
  qed
  show ?case
  proof (cases "finished s")
    case True
    with Cons.prems(1) have "s' = s" by (simp add: load_vehicles_Cons)
    with Cons.prems(2) show ?thesis by simp
  next
    case nobreak: False
    show ?thesis
    proof (cases "skipped v")
      case True
      with nobreak Cons.prems(1) have "load_vehicles items vs ls s = Inr (ls', s')"
        by (simp add: load_vehicles_Cons)
      then show ?thesis using Cons.prems(2) by (rule IH)
    next
      case False
      from nobreak False Cons.prems(1) obtain ls1 s1 where
        1: "load_lines items v ls (enter v s) = Inr (ls1, s1)" and
        2: "load_vehicles items vs ls1 s1 = Inr (ls', s')"
        by (auto simp: load_vehicles_Cons split: sum.splits)
      have v: "v \<in> set (v # vs)" by simp
      have "Q v (enter v s)" using Cons.prems(3) [OF v False Cons.prems(2)] .
      with 1 have "Q v s1"
      proof (rule load_lines_state_inv)
        show "Q v t'" if "Q v t" "load_line items v l t = Inr (l', t')" for l t l' t'
          using Cons.prems(4) [OF v False that] .
      qed
      then have "P s1" using Cons.prems(5) [OF v] by blast
      with 2 show ?thesis by (rule IH)
    qed
  qed
qed


lemma loaded_state_rows:
  "vehicle_rows (loaded_state v l it n s) =
     map (\<lambda>row. if vehicle_id row = vehicle_id v
                 then row_update (make_update v
                        (float_sub (remaining_weight_capacity s) (float_mul_int n (weight it)))
                        (remaining_item_capacity s - n)) row
                 else row) (vehicle_rows s)"
  by (simp add: loaded_state_def Let_def)

subsection \<open>The store keeps its ids and maximal capacities\<close>

lemma loaded_state_ids [simp]:
  "map vehicle_id (vehicle_rows (loaded_state v l it n s)) = map vehicle_id (vehicle_rows s)"
  by (simp add: loaded_state_rows row_update_def make_update_def)

lemma loaded_state_max [simp]:
  "map max_capacity_weight (vehicle_rows (loaded_state v l it n s)) =
     map max_capacity_weight (vehicle_rows s)"
  "map max_capacity_items (vehicle_rows (loaded_state v l it n s)) =
     map max_capacity_items (vehicle_rows s)"
  by (simp_all add: loaded_state_rows row_update_def)

lemma load_line_ids:
  "load_line items v l s = Inr (l', s') \<Longrightarrow>
     map vehicle_id (vehicle_rows s') = map vehicle_id (vehicle_rows s)"
  by (drule load_line_Inr) (elim disjE exE conjE, simp_all)

lemma enter_simps [simp]:
  "remaining_weight (enter v s) = remaining_weight s"
  "remaining_items (enter v s) = remaining_items s"
  "remaining_weight_capacity (enter v s) = remaining_capacity_weight v"
  "remaining_item_capacity (enter v s) = remaining_capacity_items v"
  "vehicle_rows (enter v s) = vehicle_rows s"
  "updates (enter v s) = updates s"
  "printed (enter v s) = printed s"
  by (simp_all add: enter_def)

lemma load_lines_ids:
  "load_lines items v ls s = Inr (ls', s') \<Longrightarrow>
     map vehicle_id (vehicle_rows s') = map vehicle_id (vehicle_rows s)"
  by (erule load_lines_state_inv [where P = "\<lambda>t. map vehicle_id (vehicle_rows t) = map vehicle_id (vehicle_rows s)"])
     (simp_all add: load_line_ids)

subsection \<open>When a call raises\<close>

lemma loadable_items_total:
  "w \<noteq> 0 \<Longrightarrow> \<exists>n. loadable_items s q w = Inr n"
  by (simp add: loadable_items_def float_div_def)

lemma load_line_total:
  assumes "vehicle_id v \<in> vehicle_id ` set (vehicle_rows s)"
    and "divisible items v (line_item_id l)"
  shows "\<exists>l' s'. load_line items v l s = Inr (l', s')"
proof (cases "find_item items (line_item_id l)")
  case None
  then show ?thesis by (simp add: load_line_def)
next
  case (Some it)
  show ?thesis
  proof (cases "vtype v = ''Bike'' \<and> item_type it = ''fragile''")
    case True
    with Some show ?thesis by (simp add: load_line_def)
  next
    case False
    with Some assms(2) have "weight it \<noteq> 0" by (simp add: divisible_def)
    then obtain n where "loadable_items s (quantity l) (weight it) = Inr n"
      using loadable_items_total by blast
    with Some False assms(1) show ?thesis
      by (cases "0 < n") (simp_all add: load_line_def load_def Let_def update_vehicle_eq)
  qed
qed

lemma load_line_item_id:
  "load_line items v l s = Inr (l', s') \<Longrightarrow> line_item_id l' = line_item_id l"
  by (drule load_line_Inr) (elim disjE exE conjE, simp_all)

lemma load_lines_item_ids:
  "load_lines items v ls s = Inr (ls', s') \<Longrightarrow> map line_item_id ls' = map line_item_id ls"
proof (induction ls arbitrary: s ls' s')
  case Nil
  then show ?case by simp
next
  case (Cons l ls)
  from Cons.prems obtain l1 s1 ls1 where
    1: "load_line items v l s = Inr (l1, s1)" and 2: "load_lines items v ls s1 = Inr (ls1, s')"
    and 3: "ls' = l1 # ls1"
    by (auto split: sum.splits)
  from load_line_item_id [OF 1] Cons.IH [OF 2] 3 show ?case by simp
qed

lemma load_vehicles_item_ids:
  "load_vehicles items vs ls s = Inr (ls', s') \<Longrightarrow> map line_item_id ls' = map line_item_id ls"
proof (induction vs arbitrary: s ls)
  case Nil
  then show ?case by simp
next
  case (Cons v vs)
  show ?case
  proof (cases "finished s \<or> skipped v")
    case True
    with Cons show ?thesis by (auto simp: load_vehicles_Cons split: if_splits)
  next
    case False
    with Cons.prems obtain ls1 s1 where
      1: "load_lines items v ls (enter v s) = Inr (ls1, s1)" and
      2: "load_vehicles items vs ls1 s1 = Inr (ls', s')"
      by (auto simp: load_vehicles_Cons split: sum.splits)
    from load_lines_item_ids [OF 1] Cons.IH [OF 2] show ?thesis by simp
  qed
qed

lemma load_lines_total:
  assumes "vehicle_id v \<in> vehicle_id ` set (vehicle_rows s)"
    and "\<forall>l\<in>set ls. divisible items v (line_item_id l)"
  shows "\<exists>ls' s'. load_lines items v ls s = Inr (ls', s')"
  using assms
proof (induction ls arbitrary: s)
  case Nil
  then show ?case by simp
next
  case (Cons l ls)
  from load_line_total [OF Cons.prems(1), of items l] Cons.prems(2)
  obtain l1 s1 where 1: "load_line items v l s = Inr (l1, s1)" by auto
  from load_line_ids [OF 1] Cons.prems(1)
  have "vehicle_id v \<in> vehicle_id ` set (vehicle_rows s1)"
    by (metis list.set_map)
  from Cons.IH [OF this] Cons.prems(2)
  obtain ls1 s2 where 2: "load_lines items v ls s1 = Inr (ls1, s2)" by auto
  with 1 show ?case by simp
qed

lemma load_vehicles_total:
  assumes "vehicle_id ` set vs \<subseteq> vehicle_id ` set (vehicle_rows s)"
    and "\<forall>v\<in>set vs. \<not> skipped v \<longrightarrow> (\<forall>iid\<in>set (map line_item_id ls). divisible items v iid)"
  shows "\<exists>ls' s'. load_vehicles items vs ls s = Inr (ls', s')"
  using assms
proof (induction vs arbitrary: s ls)
  case Nil
  then show ?case by simp
next
  case (Cons v vs)
  show ?case
  proof (cases "finished s \<or> skipped v")
    case True
    then show ?thesis
      using Cons.IH [of s ls] Cons.prems by (auto simp: load_vehicles_Cons)
  next
    case False
    have "vehicle_id v \<in> vehicle_id ` set (vehicle_rows (enter v s))"
      using Cons.prems(1) by simp
    moreover have "\<forall>l\<in>set ls. divisible items v (line_item_id l)"
      using Cons.prems(2) False by simp
    ultimately obtain ls1 s1 where 1: "load_lines items v ls (enter v s) = Inr (ls1, s1)"
      using load_lines_total by blast
    from load_lines_ids [OF 1] have "vehicle_id ` set (vehicle_rows s1) = vehicle_id ` set (vehicle_rows s)"
      by (metis enter_simps(5) list.set_map)
    moreover from load_lines_item_ids [OF 1] have "map line_item_id ls1 = map line_item_id ls" .
    ultimately obtain ls2 s2 where "load_vehicles items vs ls1 s1 = Inr (ls2, s2)"
      using Cons.IH [of s1 ls1] Cons.prems by auto
    with 1 False show ?thesis by (simp add: load_vehicles_Cons)
  qed
qed

lemma select_vehicle_total:
  assumes "\<forall>v\<in>set rows. \<not> skipped v \<longrightarrow> (\<forall>l\<in>set ls. divisible items v (line_item_id l))"
  shows "\<exists>r. select_vehicle tw ic ls rows items = Inr r"
proof -
  have "\<exists>ls' s'. load_vehicles items (sort_key sort_key_of rows) ls (initial_state tw ic rows)
          = Inr (ls', s')"
    by (rule load_vehicles_total) (use assms in \<open>simp_all add: initial_state_def\<close>)
  then show ?thesis
    by (auto simp: select_vehicle_def allocate_def)
qed

lemma positive_weights_divisible:
  assumes "positive_weights items rows ls" "v \<in> set rows" "\<not> skipped v" "l \<in> set ls"
  shows "divisible items v (line_item_id l)"
proof (cases "find_item items (line_item_id l)")
  case None
  then show ?thesis by (simp add: divisible_def)
next
  case (Some it)
  with assms(1,4) have "\<forall>v\<in>set rows. skipped v \<or> (vtype v = ''Bike'' \<and> item_type it = ''fragile'')
      \<or> 0 < weight it"
    by (force simp: positive_weights_def list_all_iff)
  with assms(2,3) have "(vtype v = ''Bike'' \<and> item_type it = ''fragile'') \<or> 0 < weight it"
    by blast
  with Some show ?thesis by (auto simp: divisible_def)
qed

subsection \<open>Records and printed lines\<close>

lemma load_line_records:
  assumes "load_line items v l s = Inr (l', s')"
    and "list_all2 (record_of_load items) (updates s) (printed s)"
  shows "list_all2 (record_of_load items) (updates s') (printed s')"
  using load_line_Inr [OF assms(1)]
proof (elim disjE exE conjE)
  assume "l' = l" "s' = s"
  with assms(2) show ?thesis by simp
next
  fix it n
  assume *: "find_item items (line_item_id l) = Some it"
    "\<not> (vtype v = ''Bike'' \<and> item_type it = ''fragile'')" "0 < n"
    "s' = loaded_state v l it n s"
  have "record_of_load items
          (make_update v (float_sub (remaining_weight_capacity s) (float_mul_int n (weight it)))
             (remaining_item_capacity s - n))
          (Loaded (vehicle_id v) (vtype v) n (line_item_id l) (float_mul_int n (weight it)))"
    using * by (simp add: record_of_load_def announces_def fragile_on_bike_def load_weight_def
        make_update_def)
  with assms(2) * show ?thesis
    by (simp add: list_all2_appendI)
qed

lemma load_vehicles_records:
  assumes "load_vehicles items vs ls s = Inr (ls', s')"
    and "list_all2 (record_of_load items) (updates s) (printed s)"
  shows "list_all2 (record_of_load items) (updates s') (printed s')"
  using assms
  by (rule load_vehicles_state_inv
        [where Q = "\<lambda>v t. list_all2 (record_of_load items) (updates t) (printed t)"])
     (simp_all add: load_line_records)

lemma loads_printed:
  "list_all2 (record_of_load items) us ms \<Longrightarrow> loads ms = ms \<and> loads (ms @ [NotEnoughCapacity]) = ms"
  by (induction us ms rule: list_all2_induct)
     (auto simp: loads_def record_of_load_def announces_def)

lemma select_vehicle_Inr:
  "select_vehicle tw ic ls rows items = Inr r \<longleftrightarrow>
     (\<exists>ls' s. run tw ic ls rows items = Inr (ls', s) \<and>
        r = \<lparr>returned = updates s, store = vehicle_rows s, lines_after = ls',
              printout = (if 0 < remaining_items s then printed s @ [NotEnoughCapacity]
                          else printed s)\<rparr>)"
  by (auto simp: select_vehicle_def allocate_def run_def split: sum.splits)

lemma initial_state_simps [simp]:
  "remaining_weight (initial_state tw ic rows) = tw"
  "remaining_items (initial_state tw ic rows) = ic"
  "vehicle_rows (initial_state tw ic rows) = rows"
  "updates (initial_state tw ic rows) = []"
  "printed (initial_state tw ic rows) = []"
  by (simp_all add: initial_state_def)

lemma records_match_loads:
  assumes "select_vehicle tw ic ls rows items = Inr r"
  shows "list_all2 (record_of_load items) (returned r) (loads (printout r))"
proof -
  from assms obtain ls' s where 1: "run tw ic ls rows items = Inr (ls', s)"
    and r: "returned r = updates s"
      "printout r = (if 0 < remaining_items s then printed s @ [NotEnoughCapacity] else printed s)"
    by (auto simp: select_vehicle_Inr)
  have "list_all2 (record_of_load items) (updates s) (printed s)"
    using 1 unfolding run_def by (rule load_vehicles_records) simp
  with r loads_printed [OF this] show ?thesis by simp
qed

subsection \<open>The scenarios of the specification\<close>

lemma scenario_B:
  "select_vehicle 3 3 [line ''I2002'' 3] [ship_A, bike_A] [solid_2kg, fragile_1kg] = Inr outcome_B"
  by code_simp

subsection \<open>The order of the vehicles\<close>

lemma load_vehicles_finished:
  "finished s \<Longrightarrow> load_vehicles items vs ls s = Inr (ls, s)"
  by (cases vs) (simp_all add: load_vehicles_Cons)

lemma load_vehicles_eligible:
  "load_vehicles items (eligible vs) ls s = load_vehicles items vs ls s"
proof (induction vs arbitrary: ls s)
  case Nil
  then show ?case by (simp add: eligible_def)
next
  case (Cons v vs)
  have IH: "load_vehicles items (eligible vs) ls1 s1 = load_vehicles items vs ls1 s1" for ls1 s1
    by (rule Cons.IH)
  show ?case
  proof (cases "finished s")
    case True
    then show ?thesis by (simp add: load_vehicles_finished)
  next
    case False
    show ?thesis
    proof (cases "skipped v")
      case True
      then have "eligible (v # vs) = eligible vs" by (simp add: eligible_def)
      with True False IH show ?thesis by (simp add: load_vehicles_Cons)
    next
      case notskipped: False
      then have "eligible (v # vs) = v # eligible vs" by (simp add: eligible_def)
      with notskipped False IH show ?thesis
        by (simp add: load_vehicles_Cons split: sum.splits)
    qed
  qed
qed

lemma eligible_sort: "eligible (sort_key f rows) = sort_key f (eligible rows)"
  by (simp add: eligible_def filter_sort)

lemma considered_before_sort_key:
  "considered_before a b \<longleftrightarrow> sort_key_of a \<le> sort_key_of b"
  by (auto simp: considered_before_def sort_key_of_def less_eq_prod_def)

subsection \<open>Request lines that do not resolve\<close>

lemma keep_resolved_simps [simp]:
  "keep_resolved items (Inl e) = Inl e"
  "keep_resolved items (Inr (ls, s)) = Inr (filter (resolves items) ls, s)"
  by (simp_all add: keep_resolved_def)

lemma load_line_unresolved:
  "\<not> resolves items l \<Longrightarrow> load_line items v l s = Inr (l, s)"
  by (simp add: load_line_def resolves_def)

lemma load_line_resolves:
  "load_line items v l s = Inr (l', s') \<Longrightarrow> resolves items l' = resolves items l"
  by (simp add: resolves_def load_line_item_id)

lemma load_lines_keep_resolved:
  "load_lines items v (filter (resolves items) ls) s = keep_resolved items (load_lines items v ls s)"
proof (induction ls arbitrary: s)
  case Nil
  then show ?case by simp
next
  case (Cons l ls)
  show ?case
  proof (cases "resolves items l")
    case False
    then show ?thesis
      by (cases "load_lines items v ls s") (auto simp: Cons.IH load_line_unresolved)
  next
    case True
    show ?thesis
    proof (cases "load_line items v l s")
      case (Inl e)
      with True show ?thesis by simp
    next
      case (Inr p)
      obtain l1 s1 where p: "p = (l1, s1)" by (cases p)
      with Inr have "resolves items l1" using load_line_resolves True by blast
      with Inr p True show ?thesis
        by (cases "load_lines items v ls s1") (auto simp: Cons.IH)
    qed
  qed
qed

lemma load_vehicles_keep_resolved:
  "load_vehicles items vs (filter (resolves items) ls) s =
     keep_resolved items (load_vehicles items vs ls s)"
proof (induction vs arbitrary: ls s)
  case Nil
  then show ?case by simp
next
  case (Cons v vs)
  show ?case
  proof (cases "finished s \<or> skipped v")
    case True
    then show ?thesis by (auto simp: load_vehicles_Cons Cons.IH)
  next
    case False
    then show ?thesis
      by (cases "load_lines items v ls (enter v s)")
         (auto simp: load_vehicles_Cons load_lines_keep_resolved Cons.IH)
  qed
qed

lemma load_lines_unresolved_kept:
  "load_lines items v ls s = Inr (ls', s') \<Longrightarrow>
     list_all2 (\<lambda>l' l. resolves items l \<or> l' = l) ls' ls"
proof (induction ls arbitrary: s ls' s')
  case Nil
  then show ?case by simp
next
  case (Cons l ls)
  from Cons.prems obtain l1 s1 ls1 where
    1: "load_line items v l s = Inr (l1, s1)" and 2: "load_lines items v ls s1 = Inr (ls1, s')"
    and 3: "ls' = l1 # ls1"
    by (auto split: sum.splits)
  have "resolves items l \<or> l1 = l"
    using 1 load_line_unresolved [of items l v s] by auto
  with Cons.IH [OF 2] 3 show ?case by simp
qed

lemma list_all2_unresolved_trans:
  assumes "list_all2 (\<lambda>l' l. resolves items l \<or> l' = l) ls2 ls1"
    and "list_all2 (\<lambda>l' l. resolves items l \<or> l' = l) ls1 ls"
  shows "list_all2 (\<lambda>l' l. resolves items l \<or> l' = l) ls2 ls"
  using assms(2,1)
proof (induction ls1 ls arbitrary: ls2 rule: list_all2_induct)
  case Nil
  then show ?case by simp
next
  case (Cons x xs y ys)
  then show ?case by (cases ls2) auto
qed

lemma load_vehicles_unresolved_kept:
  "load_vehicles items vs ls s = Inr (ls', s') \<Longrightarrow>
     list_all2 (\<lambda>l' l. resolves items l \<or> l' = l) ls' ls"
proof (induction vs arbitrary: ls s)
  case Nil
  then show ?case by (simp add: list_all2_refl)
next
  case (Cons v vs)
  show ?case
  proof (cases "finished s \<or> skipped v")
    case True
    with Cons show ?thesis
      by (auto simp: load_vehicles_Cons list_all2_refl split: if_splits)
  next
    case False
    with Cons.prems obtain ls1 s1 where
      1: "load_lines items v ls (enter v s) = Inr (ls1, s1)" and
      2: "load_vehicles items vs ls1 s1 = Inr (ls', s')"
      by (auto simp: load_vehicles_Cons split: sum.splits)
    from Cons.IH [OF 2] load_lines_unresolved_kept [OF 1]
    show ?thesis by (rule list_all2_unresolved_trans)
  qed
qed

lemma scenario_D:
  "select_vehicle 6 8 [line ''I9999'' 5, line ''I2001'' 3] [ship_A, bike_A] [solid_2kg, fragile_1kg]
     = Inr outcome_D"
  by code_simp

subsection \<open>The store after a call\<close>

lemma last_record_snoc:
  "last_record vid (us @ [u]) = (if upd_vehicle_id u = vid then Some u else last_record vid us)"
  by (simp add: last_record_def)

lemma load_line_reflects:
  assumes "load_line items v l s = Inr (l', s')"
    and "list_all (reflects rows0 (updates s)) (vehicle_rows s)"
  shows "list_all (reflects rows0 (updates s')) (vehicle_rows s')"
  using load_line_Inr [OF assms(1)]
proof (elim disjE exE conjE)
  assume "l' = l" "s' = s"
  with assms(2) show ?thesis by simp
next
  fix it n
  assume s': "s' = loaded_state v l it n s"
  show ?thesis
    using assms(2) unfolding s'
    by (auto simp: loaded_state_rows list_all_iff reflects_def last_record_snoc
        row_update_def make_update_def)
qed

lemma load_vehicles_reflects:
  assumes "load_vehicles items vs ls s = Inr (ls', s')"
    and "list_all (reflects rows0 (updates s)) (vehicle_rows s)"
  shows "list_all (reflects rows0 (updates s')) (vehicle_rows s')"
  using assms
  by (rule load_vehicles_state_inv
        [where Q = "\<lambda>v t. list_all (reflects rows0 (updates t)) (vehicle_rows t)"])
     (simp_all add: load_line_reflects)

lemma store_reflects_records:
  assumes "select_vehicle tw ic ls rows items = Inr r"
  shows "list_all (reflects rows (returned r)) (store r)"
proof -
  from assms obtain ls' s where 1: "run tw ic ls rows items = Inr (ls', s)"
    and r: "returned r = updates s" "store r = vehicle_rows s"
    by (auto simp: select_vehicle_Inr)
  have "list_all (reflects rows (updates s)) (vehicle_rows s)"
    using 1 unfolding run_def
    by (rule load_vehicles_reflects)
       (simp add: list_all_iff reflects_def last_record_def)
  with r show ?thesis by simp
qed

lemma load_line_record_ids:
  assumes "load_line items v l s = Inr (l', s')"
    and "upd_vehicle_id ` set (updates s) \<subseteq> A" and "vehicle_id v \<in> A"
  shows "upd_vehicle_id ` set (updates s') \<subseteq> A"
  using load_line_Inr [OF assms(1)] assms(2,3)
  by (elim disjE exE conjE) (auto simp: make_update_def)

lemma load_vehicles_record_ids:
  assumes "load_vehicles items vs ls s = Inr (ls', s')"
    and "upd_vehicle_id ` set (updates s) \<subseteq> vehicle_id ` set (eligible vs)"
  shows "upd_vehicle_id ` set (updates s') \<subseteq> vehicle_id ` set (eligible vs)"
  using assms
proof (rule load_vehicles_state_inv
        [where Q = "\<lambda>v t. upd_vehicle_id ` set (updates t) \<subseteq> vehicle_id ` set (eligible vs)"])
  show "upd_vehicle_id ` set (updates t') \<subseteq> vehicle_id ` set (eligible vs)"
    if "v \<in> set vs" "\<not> skipped v"
      "upd_vehicle_id ` set (updates t) \<subseteq> vehicle_id ` set (eligible vs)"
      "load_line items v l t = Inr (l', t')" for v l t l' t'
    using that(4,3)
  proof (rule load_line_record_ids)
    show "vehicle_id v \<in> vehicle_id ` set (eligible vs)"
      using that(1,2) by (simp add: eligible_def)
  qed
qed simp_all

lemma records_name_eligible_vehicles:
  assumes "select_vehicle tw ic ls rows items = Inr r"
  shows "upd_vehicle_id ` set (returned r) \<subseteq> vehicle_id ` set (eligible rows)"
proof -
  from assms obtain ls' s where 1: "run tw ic ls rows items = Inr (ls', s)"
    and r: "returned r = updates s"
    by (auto simp: select_vehicle_Inr)
  have "upd_vehicle_id ` set (updates s) \<subseteq> vehicle_id ` set (eligible (sort_key sort_key_of rows))"
    using 1 unfolding run_def by (rule load_vehicles_record_ids) simp
  with r show ?thesis by (simp add: eligible_def)
qed

lemma list_all2_partner:
  "list_all2 P xs ys \<Longrightarrow> x \<in> set xs \<Longrightarrow> \<exists>y\<in>set ys. P x y"
  by (induction xs ys rule: list_all2_induct) auto

lemma records_in_use:
  assumes "select_vehicle tw ic ls rows items = Inr r" and "u \<in> set (returned r)"
  shows "upd_status u = ''in_use''"
  using list_all2_partner [OF records_match_loads [OF assms(1)] assms(2)]
  by (auto simp: record_of_load_def)

lemma last_record_Some:
  "vid \<in> upd_vehicle_id ` set us \<Longrightarrow> \<exists>u\<in>set us. last_record vid us = Some u"
  by (induction us rule: rev_induct) (auto simp: last_record_snoc)

lemma printed_loads_only:
  "list_all2 (record_of_load items) us ms \<Longrightarrow> NotEnoughCapacity \<notin> set ms"
  by (induction us ms rule: list_all2_induct)
     (auto simp: record_of_load_def announces_def)

lemma two_lines_on_truck:
  "select_vehicle 3 2 [line ''I2001'' 1, line ''I2002'' 1] [truck_A] [solid_2kg, fragile_1kg]
     = Inr outcome_two_lines"
  by code_simp

lemma first_call_truck:
  "select_vehicle 6 3 [line ''I2001'' 3] [truck_A] [solid_2kg] = Inr (outcome_first_call [])"
  by code_simp

lemma first_call_truck_ship:
  "select_vehicle 6 3 [line ''I2001'' 3] [truck_A, ship_A] [solid_2kg]
     = Inr (outcome_first_call [ship_A])"
  by code_simp

lemma nonzero_weights_divisible:
  "list_all (\<lambda>it. weight it \<noteq> 0) items \<Longrightarrow> divisible items v iid"
  by (auto simp: divisible_def find_item_def list_all_iff find_Some_iff split: option.splits)

subsection \<open>The loadable quantity\<close>

lemma max_min_clipped:
  fixes q ri ric z1 z2 :: int
  assumes "z1 = z2 \<or> (z1 \<le> 0 \<and> z2 \<le> 0)"
  shows "max 0 (min q (min (min ri ric) z1)) = max 0 (min q (min ri (min ric z2)))"
  using assms by (auto simp: max_def min_def)

lemma py_int_floor: "py_int x = \<lfloor>x\<rfloor> \<or> (py_int x \<le> 0 \<and> \<lfloor>x\<rfloor> \<le> 0)"
proof (cases "0 \<le> x")
  case True
  then show ?thesis by (simp add: py_int_def)
next
  case False
  then have "x < 0" by simp
  then have "\<lceil>x\<rceil> \<le> 0" "\<lfloor>x\<rfloor> \<le> 0"
    by (simp_all add: ceiling_le_zero floor_le_zero)
  with False show ?thesis by (simp add: py_int_def)
qed

lemma loadable_items_spec:
  assumes "loadable_items s q w = Inr n"
  shows "n = min q (min (min (remaining_items s) (remaining_item_capacity s))
               (py_int (fl (min (remaining_weight s) (remaining_weight_capacity s) / w))))"
    and "max 0 n = max 0 (spec_loadable q (remaining_items s) (remaining_item_capacity s)
               (remaining_weight s) (remaining_weight_capacity s) w)"
proof -
  from assms show n: "n = min q (min (min (remaining_items s) (remaining_item_capacity s))
               (py_int (fl (min (remaining_weight s) (remaining_weight_capacity s) / w))))"
    by (auto simp: loadable_items_def float_div_def Let_def split: if_splits)
  show "max 0 n = max 0 (spec_loadable q (remaining_items s) (remaining_item_capacity s)
               (remaining_weight s) (remaining_weight_capacity s) w)"
    unfolding n spec_loadable_def by (rule max_min_clipped) (rule py_int_floor)
qed

lemma load_line_processed:
  assumes "find_item items (line_item_id l) = Some it"
    and "\<not> (vtype v = ''Bike'' \<and> item_type it = ''fragile'')"
    and "load_line items v l s = Inr (l', s')"
  shows "\<exists>n. loadable_items s (quantity l) (weight it) = Inr n \<and>
           (if 0 < n then l' = l\<lparr>quantity := quantity l - n\<rparr> \<and> s' = loaded_state v l it n s
            else l' = l \<and> s' = s)"
proof (cases "loadable_items s (quantity l) (weight it)")
  case (Inl e)
  with assms show ?thesis by (auto simp: load_line_def split: if_splits)
next
  case (Inr n)
  with assms show ?thesis
    by (cases "0 < n") (auto simp: load_line_def load_Inr split: if_splits)
qed

lemma first_line_C:
  "load_line [solid_4200g, solid_2kg] truck_C (line ''I2004'' 24)
     (enter truck_C (initial_state total_weight_C 25 [truck_C]))
   = Inr (line ''I2004'' 0, after_first_line)"
  by code_simp

lemma second_line_C:
  "load_line [solid_4200g, solid_2kg] truck_C (line ''I2001'' 1) after_first_line
   = Inr (line ''I2001'' 1, after_first_line)"
  by code_simp

subsection \<open>Rounding to a float is monotone\<close>

lemma pow2_powi: "pow2 e = 2 powi e"
  by (simp add: pow2_def power_int_def inverse_eq_divide power_one_over)

lemma pow2_pos [simp]: "0 < pow2 e"
  by (simp add: pow2_powi)

lemma pow2_add: "pow2 (a + b) = pow2 a * pow2 b"
  by (simp add: pow2_powi power_int_add)

lemma pow2_mono: "a \<le> b \<Longrightarrow> pow2 a \<le> pow2 b"
  by (simp add: pow2_powi power_int_increasing)

lemma pow2_strict_mono: "a < b \<Longrightarrow> pow2 a < pow2 b"
  by (simp add: pow2_powi power_int_strict_increasing)

lemma pow2_less_cancel: "pow2 a < pow2 b \<Longrightarrow> a < b"
  using pow2_mono [of b a] by (cases "a < b") auto

lemma pow2_nat: "0 \<le> e \<Longrightarrow> pow2 e = 2 ^ nat e"
  by (simp add: pow2_def)

lemma expo_bounds:
  assumes "0 < x"
  shows "pow2 (expo x) \<le> x \<and> x < pow2 (expo x + 1)"
proof -
  obtain p q where pq: "quotient_of x = (p, q)" by (cases "quotient_of x")
  then have q: "0 < q" and x: "x = of_int p / of_int q"
    by (simp_all add: quotient_of_denom_pos quotient_of_div)
  with assms have p: "0 < p" by (simp add: zero_less_divide_iff)
  define bp bq where "bp = bitlen p" and "bq = bitlen q"
  have bp: "1 \<le> bp" and bq: "1 \<le> bq"
    using p q by (auto simp: bp_def bq_def bitlen_alt_def)
  from bitlen_bounds [OF p] have "(2::int) ^ nat (bp - 1) \<le> p" "p < 2 ^ nat bp"
    by (simp_all add: bp_def)
  then have "(of_int (2 ^ nat (bp - 1)) :: rat) \<le> of_int p" "(of_int p :: rat) < of_int (2 ^ nat bp)"
    by (simp_all only: of_int_le_iff of_int_less_iff)
  then have p1: "pow2 (bp - 1) \<le> of_int p" and p2: "of_int p < pow2 bp"
    using bp by (simp_all add: pow2_nat)
  from bitlen_bounds [OF q] have "(2::int) ^ nat (bq - 1) \<le> q" "q < 2 ^ nat bq"
    by (simp_all add: bq_def)
  then have "(of_int (2 ^ nat (bq - 1)) :: rat) \<le> of_int q" "(of_int q :: rat) < of_int (2 ^ nat bq)"
    by (simp_all only: of_int_le_iff of_int_less_iff)
  then have q1: "pow2 (bq - 1) \<le> of_int q" and q2: "of_int q < pow2 bq"
    using bq by (simp_all add: pow2_nat)
  define k where "k = bp - bq"
  have qpos: "(0::rat) < of_int q" using q by simp
  have upper: "x < pow2 (k + 1)"
  proof -
    have "pow2 (k + 1) * pow2 (bq - 1) = pow2 bp"
      by (simp add: pow2_add [symmetric] k_def)
    then have "of_int p < pow2 (k + 1) * pow2 (bq - 1)" using p2 by simp
    also have "\<dots> \<le> pow2 (k + 1) * of_int q"
      using q1 by (simp add: mult_left_mono)
    finally show ?thesis using qpos by (simp add: x pos_divide_less_eq)
  qed
  have lower: "pow2 (k - 1) \<le> x"
  proof -
    have "pow2 (k - 1) * pow2 bq = pow2 (bp - 1)"
      by (simp add: pow2_add [symmetric] k_def)
    have "pow2 (k - 1) * of_int q \<le> pow2 (k - 1) * pow2 bq"
      using q2 by (simp add: mult_left_mono)
    also have "\<dots> = pow2 (bp - 1)" by fact
    also have "\<dots> \<le> of_int p" by fact
    finally show ?thesis using qpos by (simp add: x pos_le_divide_eq)
  qed
  have e: "expo x = (if pow2 k \<le> x then k else k - 1)"
    by (simp add: expo_def pq k_def bp_def bq_def Let_def)
  show ?thesis
  proof (cases "pow2 k \<le> x")
    case True
    with e upper show ?thesis by simp
  next
    case False
    with e lower show ?thesis by simp
  qed
qed

lemma round_half_even_mono:
  assumes "a \<le> b"
  shows "round_half_even a \<le> round_half_even b"
proof -
  have fa: "\<lfloor>a\<rfloor> \<le> \<lfloor>b\<rfloor>" using assms by (rule floor_mono)
  have ra: "round_half_even a \<le> \<lfloor>a\<rfloor> + 1" and rb: "\<lfloor>b\<rfloor> \<le> round_half_even b"
    by (simp_all add: round_half_even_def Let_def)
  show ?thesis
  proof (cases "\<lfloor>a\<rfloor> = \<lfloor>b\<rfloor>")
    case False
    with fa ra rb show ?thesis by linarith
  next
    case True
    with assms show ?thesis
      by (auto simp: round_half_even_def Let_def)
  qed
qed

lemma round_half_even_of_int [simp]: "round_half_even (of_int k) = k"
  by (simp add: round_half_even_def)

lemma fl_0 [simp]: "fl 0 = 0"
  by (simp add: fl_def)

lemma fl_minus: "fl (- x) = - fl x"
  by (simp add: fl_def Let_def)

lemma fl_pos:
  assumes "0 < x"
  shows "fl x = of_int (round_half_even (x / pow2 (expo x - 52))) * pow2 (expo x - 52)"
  using assms by (simp add: fl_def Let_def)

lemma fl_pos_bounds:
  assumes "0 < x"
  shows "pow2 (expo x) \<le> fl x" and "fl x \<le> pow2 (expo x + 1)"
proof -
  define e where "e = expo x - 52"
  define m where "m = round_half_even (x / pow2 e)"
  have fl: "fl x = of_int m * pow2 e"
    using assms by (simp add: fl_pos e_def m_def)
  have ee: "e + 52 = expo x" "e + 53 = expo x + 1" by (simp_all add: e_def)
  have c52: "pow2 52 = of_int (2 ^ 52)" and c53: "pow2 53 = of_int (2 ^ 53)"
    by (simp_all add: pow2_def)
  from expo_bounds [OF assms] have lo: "pow2 (e + 52) \<le> x" and hi: "x < pow2 (e + 53)"
    unfolding ee by blast+
  have "pow2 52 * pow2 e \<le> x" using lo by (simp add: pow2_add mult.commute)
  then have "pow2 52 \<le> x / pow2 e" by (simp add: pos_le_divide_eq)
  then have "(of_int (2 ^ 52) :: rat) \<le> x / pow2 e" by (simp only: c52)
  from round_half_even_mono [OF this] have m1: "2 ^ 52 \<le> m"
    unfolding m_def round_half_even_of_int .
  have "x \<le> pow2 53 * pow2 e" using hi by (simp add: pow2_add mult.commute)
  then have "x / pow2 e \<le> pow2 53" by (simp add: pos_divide_le_eq)
  then have "x / pow2 e \<le> (of_int (2 ^ 53) :: rat)" by (simp only: c53)
  from round_half_even_mono [OF this] have m2: "m \<le> 2 ^ 53"
    unfolding m_def round_half_even_of_int .
  from m1 have "(of_int (2 ^ 52) :: rat) \<le> of_int m" by (simp only: of_int_le_iff)
  then have "pow2 52 * pow2 e \<le> of_int m * pow2 e"
    unfolding c52 using less_imp_le [OF pow2_pos] by (rule mult_right_mono)
  then show "pow2 (expo x) \<le> fl x"
    by (simp add: fl pow2_add [symmetric] ee add.commute)
  from m2 have "(of_int m :: rat) \<le> of_int (2 ^ 53)" by (simp only: of_int_le_iff)
  then have "of_int m * pow2 e \<le> pow2 53 * pow2 e"
    unfolding c53 using less_imp_le [OF pow2_pos] by (rule mult_right_mono)
  then show "fl x \<le> pow2 (expo x + 1)"
    by (simp add: fl pow2_add [symmetric] ee add.commute)
qed

lemma fl_nonneg: "0 \<le> x \<Longrightarrow> 0 \<le> fl x"
proof (cases "x = 0")
  case True
  then show ?thesis by simp
next
  case False
  assume "0 \<le> x"
  with False have "0 < x" by simp
  from fl_pos_bounds(1) [OF this] pow2_pos [of "expo x"] show ?thesis by linarith
qed

lemma fl_mono_pos:
  assumes "0 < x" and "x \<le> y"
  shows "fl x \<le> fl y"
proof -
  from assms have y: "0 < y" by simp
  from expo_bounds [OF assms(1)] expo_bounds [OF y] assms(2)
  have "pow2 (expo x) < pow2 (expo y + 1)" by linarith
  then have le: "expo x \<le> expo y" using pow2_less_cancel by fastforce
  show ?thesis
  proof (cases "expo x = expo y")
    case True
    have "x / pow2 (expo y - 52) \<le> y / pow2 (expo y - 52)"
      using assms(2) less_imp_le [OF pow2_pos] by (rule divide_right_mono)
    then have "round_half_even (x / pow2 (expo y - 52)) \<le> round_half_even (y / pow2 (expo y - 52))"
      by (rule round_half_even_mono)
    then have "(of_int (round_half_even (x / pow2 (expo y - 52))) :: rat)
        \<le> of_int (round_half_even (y / pow2 (expo y - 52)))"
      by (simp only: of_int_le_iff)
    then show ?thesis
      using assms(1) y True by (simp add: fl_pos)
  next
    case False
    with le have "expo x + 1 \<le> expo y" by simp
    then have "pow2 (expo x + 1) \<le> pow2 (expo y)" by (rule pow2_mono)
    with fl_pos_bounds(2) [OF assms(1)] fl_pos_bounds(1) [OF y] show ?thesis by linarith
  qed
qed

lemma fl_mono:
  assumes "x \<le> y"
  shows "fl x \<le> fl y"
proof (cases "0 < x")
  case True
  then show ?thesis using assms by (rule fl_mono_pos)
next
  case False
  then have x: "x \<le> 0" by simp
  show ?thesis
  proof (cases "0 \<le> y")
    case True
    from x have "0 \<le> fl (- x)" by (simp add: fl_nonneg)
    then have "fl x \<le> 0" by (simp add: fl_minus)
    with fl_nonneg [OF True] show ?thesis by linarith
  next
    case False
    then have "0 < - y" "- y \<le> - x" using assms by simp_all
    then have "fl (- y) \<le> fl (- x)" by (rule fl_mono_pos)
    then show ?thesis by (simp add: fl_minus)
  qed
qed

subsection \<open>Capacities\<close>

lemma float_mul_int_nonneg: "0 < n \<Longrightarrow> 0 \<le> w \<Longrightarrow> 0 \<le> float_mul_int n w"
  by (simp add: float_mul_int_def fl_nonneg)

lemma float_sub_le:
  assumes "a \<le> m" and "0 \<le> b" and "is_float m"
  shows "float_sub a b \<le> m"
proof -
  have "fl (a - b) \<le> fl m" using assms(1,2) by (intro fl_mono) simp
  with assms(3) show ?thesis by (simp add: float_sub_def is_float_def)
qed

lemma loadable_items_le:
  assumes "loadable_items s q w = Inr n"
  shows "n \<le> remaining_item_capacity s"
  using loadable_items_spec(1) [OF assms] by simp

lemma find_item_in_set: "find_item items iid = Some it \<Longrightarrow> it \<in> set items"
  by (auto simp: find_item_def find_Some_iff)

lemma scenario_C:
  "select_vehicle (fl (24 * fl (42 / 10))) 24 [line ''I2004'' 24] [truck_C] [solid_4200g]
     = Inr outcome_C"
  by code_simp

lemma distinct_ids_same:
  assumes "distinct (map vehicle_id rows)" "a \<in> set rows" "b \<in> set rows"
    "vehicle_id a = vehicle_id b"
  shows "a = b"
  using assms by (auto simp: distinct_map dest: inj_onD)

lemma same_vehicle_max:
  assumes "distinct (map vehicle_id rows)" "v \<in> set rows" "same_vehicle rows row"
    "vehicle_id row = vehicle_id v"
  shows "max_capacity_weight row = max_capacity_weight v \<and>
         max_capacity_items row = max_capacity_items v"
proof -
  from assms(3) obtain v0 where v0: "v0 \<in> set rows" "vehicle_id v0 = vehicle_id row"
    "max_capacity_weight v0 = max_capacity_weight row"
    "max_capacity_items v0 = max_capacity_items row"
    by (auto simp: same_vehicle_def list_ex_iff)
  with assms(4) have "vehicle_id v0 = vehicle_id v" by simp
  from distinct_ids_same [OF assms(1) v0(1) assms(2) this] v0 show ?thesis by simp
qed

lemma loaded_state_pass_kept:
  assumes v: "v \<in> set rows" and dist: "distinct (map vehicle_id rows)"
    and fm: "is_float (max_capacity_weight v)" and w: "0 \<le> weight it"
    and n: "0 < n" "n \<le> remaining_item_capacity s"
    and inv: "pass_kept rows v s"
  shows "pass_kept rows v (loaded_state v l it n s)"
proof -
  define rwc where "rwc = float_sub (remaining_weight_capacity s) (float_mul_int n (weight it))"
  define ric where "ric = remaining_item_capacity s - n"
  define u where "u = make_update v rwc ric"
  from inv have ric0: "0 \<le> remaining_item_capacity s"
    "remaining_item_capacity s \<le> max_capacity_items v"
    and rwc0: "remaining_weight_capacity s \<le> max_capacity_weight v"
    and rows: "\<forall>row\<in>set (vehicle_rows s). capacity_kept row \<and> same_vehicle rows row"
    and recs: "\<forall>u\<in>set (updates s). record_kept rows u"
    by (simp_all add: pass_kept_def store_kept_def list_all_iff)
  have ric: "0 \<le> ric" "ric \<le> max_capacity_items v"
    using n ric0 by (simp_all add: ric_def)
  have rwc: "rwc \<le> max_capacity_weight v"
    unfolding rwc_def using rwc0 float_mul_int_nonneg [OF n(1) w] fm by (rule float_sub_le)
  have u: "record_kept rows u"
    using v ric rwc by (auto simp: record_kept_def list_ex_iff u_def make_update_def)
  have row': "capacity_kept (row_update u row) \<and> same_vehicle rows (row_update u row)"
    if "row \<in> set (vehicle_rows s)" "vehicle_id row = vehicle_id v" for row
  proof -
    from rows that(1) have sv: "same_vehicle rows row" by simp
    from same_vehicle_max [OF dist v sv that(2)]
    have m: "max_capacity_weight row = max_capacity_weight v"
      "max_capacity_items row = max_capacity_items v" by simp_all
    have "capacity_kept (row_update u row)"
      using ric rwc m by (simp add: capacity_kept_def row_update_def u_def make_update_def)
    moreover have "same_vehicle rows (row_update u row)"
      using v m by (auto simp: same_vehicle_def list_ex_iff row_update_def u_def make_update_def)
    ultimately show ?thesis ..
  qed
  have "list_all (\<lambda>row. capacity_kept row \<and> same_vehicle rows row)
          (map (\<lambda>row. if vehicle_id row = vehicle_id v then row_update u row else row)
             (vehicle_rows s))"
    using rows row' by (auto simp: list_all_iff)
  moreover have "list_all (record_kept rows) (updates s @ [u])"
    using recs u by (simp add: list_all_iff)
  ultimately show ?thesis
    using ric rwc unfolding u_def rwc_def ric_def
    by (simp add: pass_kept_def store_kept_def loaded_state_rows)
qed

lemma load_line_pass_kept:
  assumes "load_line items v l s = Inr (l', s')"
    and "v \<in> set rows" and "distinct (map vehicle_id rows)"
    and "is_float (max_capacity_weight v)" and "\<forall>it\<in>set items. 0 \<le> weight it"
    and "pass_kept rows v s"
  shows "pass_kept rows v s'"
  using load_line_Inr [OF assms(1)]
proof (elim disjE exE conjE)
  assume "l' = l" "s' = s"
  with assms(6) show ?thesis by simp
next
  fix it n
  assume *: "find_item items (line_item_id l) = Some it" 
    "loadable_items s (quantity l) (weight it) = Inr n" "0 < n"
    "s' = loaded_state v l it n s"
  from *(1) assms(5) have "0 \<le> weight it" using find_item_in_set by blast
  with assms(2-4) show ?thesis
    unfolding *(4) using *(3) loadable_items_le [OF *(2)] assms(6)
    by (rule loaded_state_pass_kept)
qed

lemma load_vehicles_store_kept:
  assumes run: "load_vehicles items vs ls s = Inr (ls', s')"
    and sub: "set vs \<subseteq> set rows" and dist: "distinct (map vehicle_id rows)"
    and cap: "\<forall>v\<in>set rows. within_capacity v"
    and fm: "\<forall>v\<in>set rows. is_float (max_capacity_weight v)"
    and w: "\<forall>it\<in>set items. 0 \<le> weight it"
    and init: "store_kept rows s"
  shows "store_kept rows s'"
  using run init
proof (rule load_vehicles_state_inv [where Q = "pass_kept rows"])
  show "pass_kept rows v (enter v t)" if "v \<in> set vs" "store_kept rows t" for v t
  proof -
    from that(1) sub cap have "within_capacity v" by blast
    with that(2) show ?thesis
      by (simp add: pass_kept_def store_kept_def within_capacity_def)
  qed
  show "pass_kept rows v t'"
    if "v \<in> set vs" "pass_kept rows v t" "load_line items v l t = Inr (l', t')" for v l t l' t'
  proof -
    from that(1) sub have v: "v \<in> set rows" by blast
    with fm have "is_float (max_capacity_weight v)" by blast
    with that(3) v dist show ?thesis using w that(2) by (rule load_line_pass_kept)
  qed
  show "store_kept rows t" if "pass_kept rows v t" for v t
    using that by (simp add: pass_kept_def)
qed

subsection \<open>Loads and capacities\<close>

lemma load_vehicles_rest_inv:
  assumes run: "load_vehicles items vs ls s = Inr (ls', s')" and init: "P vs s"
    and skip: "\<And>v rest s. P (v # rest) s \<Longrightarrow> P rest s"
    and enter: "\<And>v rest s. P (v # rest) s \<Longrightarrow> \<not> skipped v \<Longrightarrow> Q v rest (enter v s)"
    and step: "\<And>v rest l s l' s'. Q v rest s \<Longrightarrow> load_line items v l s = Inr (l', s') \<Longrightarrow>
       Q v rest s'"
    and leave: "\<And>v rest s. Q v rest s \<Longrightarrow> P rest s"
  shows "\<exists>rest. P rest s'"
  using run init
proof (induction vs arbitrary: s ls)
  case Nil
  then show ?case by auto
next
  case (Cons v vs)
  show ?case
  proof (cases "finished s")
    case True
    with Cons.prems(1) have "s' = s" by (simp add: load_vehicles_Cons)
    with Cons.prems(2) show ?thesis by blast
  next
    case nobreak: False
    show ?thesis
    proof (cases "skipped v")
      case True
      with nobreak Cons.prems(1) have "load_vehicles items vs ls s = Inr (ls', s')"
        by (simp add: load_vehicles_Cons)
      moreover have "P vs s" using Cons.prems(2) by (rule skip)
      ultimately show ?thesis by (rule Cons.IH)
    next
      case False
      from nobreak False Cons.prems(1) obtain ls1 s1 where
        1: "load_lines items v ls (enter v s) = Inr (ls1, s1)" and
        2: "load_vehicles items vs ls1 s1 = Inr (ls', s')"
        by (auto simp: load_vehicles_Cons split: sum.splits)
      have "Q v vs (enter v s)" using Cons.prems(2) False by (rule enter)
      with 1 have "Q v vs s1"
      proof (rule load_lines_state_inv)
        show "Q v vs t'" if "Q v vs t" "load_line items v l t = Inr (l', t')" for l t l' t'
          using that by (rule step)
      qed
      then have "P vs s1" by (rule leave)
      with 2 show ?thesis by (rule Cons.IH)
    qed
  qed
qed

lemma settle_id [simp]: "vehicle_id (settle row ms) = vehicle_id row"
  by (simp add: settle_def)

lemma loads_of_snoc:
  "loads_of vid (ms @ [m]) =
     (if reported_vehicle m = Some vid then loads_of vid ms @ [m] else loads_of vid ms)"
  by (simp add: loads_of_def)

lemma settle_snoc:
  "row_update (make_update v (float_sub (foldl float_sub (remaining_capacity_weight v)
                                 (map reported_weight ms)) lw)
                 (remaining_capacity_items v - sum_list (map reported_units ms) - n))
     (settle v ms)
   = settle v (ms @ [Loaded (vehicle_id v) (vtype v) n iid lw])"
  by (cases v)
     (simp add: settle_def row_update_def make_update_def reported_weight_def reported_units_def)

lemma loaded_state_settled:
  assumes T: "settled rows s" and v: "v \<in> set rows" and dist: "distinct (map vehicle_id rows)"
    and c: "charged v s"
  shows "settled rows (loaded_state v l it n s)"
proof -
  define lw where "lw = float_mul_int n (weight it)"
  define m where "m = Loaded (vehicle_id v) (vtype v) n (line_item_id l) lw"
  define u where "u = make_update v (float_sub (remaining_weight_capacity s) lw)
                        (remaining_item_capacity s - n)"
  have rv: "reported_vehicle m = Some (vehicle_id v)"
    by (simp add: m_def reported_vehicle_def)
  have "(if vehicle_id (settle row (loads_of (vehicle_id row) (printed s))) = vehicle_id v
         then row_update u (settle row (loads_of (vehicle_id row) (printed s)))
         else settle row (loads_of (vehicle_id row) (printed s)))
        = settle row (loads_of (vehicle_id row) (printed s @ [m]))"
    if "row \<in> set rows" for row
  proof (cases "vehicle_id row = vehicle_id v")
    case True
    with dist that v have row: "row = v" by (rule distinct_ids_same)
    have "row_update u (settle v (loads_of (vehicle_id v) (printed s)))
            = settle v (loads_of (vehicle_id v) (printed s) @ [m])"
      using c settle_snoc [where v = v and lw = lw and ms = "loads_of (vehicle_id v) (printed s)"
          and n = n and iid = "line_item_id l"]
      by (simp add: u_def m_def charged_def)
    then show ?thesis
      by (simp add: loads_of_snoc rv row)
  next
    case False
    then show ?thesis by (simp add: loads_of_snoc rv)
  qed
  then have eq: "map (\<lambda>row. if vehicle_id row = vehicle_id v then row_update u row else row)
               (map (\<lambda>row. settle row (loads_of (vehicle_id row) (printed s))) rows)
             = map (\<lambda>row. settle row (loads_of (vehicle_id row) (printed s @ [m]))) rows"
    by simp
  have rows': "vehicle_rows (loaded_state v l it n s) =
      map (\<lambda>row. if vehicle_id row = vehicle_id v then row_update u row else row) (vehicle_rows s)"
    by (simp add: loaded_state_rows u_def lw_def)
  have pr: "printed (loaded_state v l it n s) = printed s @ [m]"
    by (simp add: m_def lw_def)
  from T have "vehicle_rows s = map (\<lambda>row. settle row (loads_of (vehicle_id row) (printed s))) rows"
    by (simp only: settled_def)
  then show ?thesis
    unfolding settled_def rows' pr by (simp only: eq)
qed

lemma load_line_charged:
  assumes run: "load_line items v l s = Inr (l', s')"
    and v: "v \<in> set rows" and dist: "distinct (map vehicle_id rows)"
    and dv: "distinct (map vehicle_id (v # rest))"
    and inv: "settled rows s" "untouched rest s" "charged v s"
  shows "settled rows s' \<and> untouched rest s' \<and> charged v s'"
  using load_line_Inr [OF run]
proof (elim disjE exE conjE)
  assume "l' = l" "s' = s"
  with inv show ?thesis by simp
next
  fix it n
  assume s': "s' = loaded_state v l it n s"
  have 1: "settled rows s'"
    unfolding s' using inv(1) v dist inv(3) by (rule loaded_state_settled)
  have 2: "untouched rest s'"
    using inv(2) dv
    by (auto simp: s' untouched_def list_all_iff loads_of_snoc reported_vehicle_def)
  have 3: "charged v s'"
    using inv(3)
    by (simp add: s' charged_def loads_of_snoc reported_vehicle_def reported_weight_def
        reported_units_def)
  from 1 2 3 show ?thesis by simp
qed

lemma load_vehicles_settled:
  assumes run: "load_vehicles items vs ls s = Inr (ls', s')"
    and dist: "distinct (map vehicle_id rows)"
    and vs: "set vs \<subseteq> set rows" "distinct (map vehicle_id vs)"
    and init: "settled rows s" "untouched vs s"
  shows "settled rows s'"
proof -
  define P where "P rest t \<longleftrightarrow> settled rows t \<and> untouched rest t \<and> set rest \<subseteq> set rows \<and>
      distinct (map vehicle_id rest)" for rest t
  define Q where "Q v rest t \<longleftrightarrow> settled rows t \<and> untouched rest t \<and> charged v t \<and>
      set (v # rest) \<subseteq> set rows \<and> distinct (map vehicle_id (v # rest))" for v rest t
  have "\<exists>rest. P rest s'"
    using run
  proof (rule load_vehicles_rest_inv [where P = P and Q = Q])
    show "P vs s" using vs init by (simp add: P_def)
    show "P rest t" if "P (v # rest) t" for v rest t
      using that by (simp add: P_def untouched_def)
    show "Q v rest (enter v t)" if "P (v # rest) t" for v rest t
      using that by (simp add: P_def Q_def settled_def untouched_def charged_def)
    show "Q v rest t'" if "Q v rest t" "load_line items v l t = Inr (l', t')" for v rest l t l' t'
    proof -
      from that(1) have "v \<in> set rows" "distinct (map vehicle_id (v # rest))"
        "settled rows t" "untouched rest t" "charged v t" "set (v # rest) \<subseteq> set rows"
        by (simp_all add: Q_def)
      with load_line_charged [OF that(2) this(1) dist this(2-5)] show ?thesis
        by (simp add: Q_def)
    qed
    show "P rest t" if "Q v rest t" for v rest t
      using that by (simp add: P_def Q_def)
  qed
  then show ?thesis by (auto simp: P_def)
qed

lemma store_settled:
  assumes "select_vehicle tw ic ls rows items = Inr r" and "distinct (map vehicle_id rows)"
  shows "store r = map (\<lambda>row. settle row (loads_of (vehicle_id row) (printout r))) rows"
proof -
  from assms(1) obtain ls' s where 1: "run tw ic ls rows items = Inr (ls', s)"
    and r: "store r = vehicle_rows s"
      "printout r = (if 0 < remaining_items s then printed s @ [NotEnoughCapacity] else printed s)"
    by (auto simp: select_vehicle_Inr)
  have "distinct (map vehicle_id (sort_key sort_key_of rows))"
    using assms(2) by (simp add: distinct_map)
  then have d: "distinct (map vehicle_id (sort_key sort_key_of rows))" .
  have sub: "set (sort_key sort_key_of rows) \<subseteq> set rows" by simp
  have i1: "settled rows (initial_state tw ic rows)"
    by (simp add: settled_def settle_def loads_of_def)
  have i2: "untouched (sort_key sort_key_of rows) (initial_state tw ic rows)"
    by (simp add: untouched_def loads_of_def list_all_iff)
  from 1 have "load_vehicles items (sort_key sort_key_of rows) ls (initial_state tw ic rows)
      = Inr (ls', s)" by (simp only: run_def)
  from load_vehicles_settled [OF this assms(2) sub d i1 i2] have "settled rows s" .
  moreover have "loads_of vid (printout r) = loads_of vid (printed s)" for vid
    by (simp add: r loads_of_def reported_vehicle_def)
  ultimately show ?thesis by (simp add: r settled_def)
qed

lemma load_line_counted:
  assumes "load_line items v l s = Inr (l', s')" and "counted tw ic s"
  shows "counted tw ic s'"
  using load_line_Inr [OF assms(1)] assms(2)
  by (elim disjE exE conjE)
     (simp_all add: counted_def reported_weight_def reported_units_def)

lemma load_vehicles_counted:
  assumes "load_vehicles items vs ls s = Inr (ls', s')" and "counted tw ic s"
  shows "counted tw ic s'"
  using assms
  by (rule load_vehicles_state_inv [where Q = "\<lambda>v. counted tw ic"])
     (simp_all add: load_line_counted, simp add: counted_def)

lemma load_line_units:
  assumes "load_line items v l s = Inr (l', s')"
  shows "quantity l - quantity l' = remaining_items s - remaining_items s'"
  using load_line_Inr [OF assms] by (elim disjE exE conjE) simp_all

lemma load_lines_units:
  "load_lines items v ls s = Inr (ls', s') \<Longrightarrow>
     sum_list (map quantity ls) - sum_list (map quantity ls') =
       remaining_items s - remaining_items s'"
proof (induction ls arbitrary: s ls' s')
  case Nil
  then show ?case by simp
next
  case (Cons l ls)
  from Cons.prems obtain l1 s1 ls1 where
    1: "load_line items v l s = Inr (l1, s1)" and 2: "load_lines items v ls s1 = Inr (ls1, s')"
    and 3: "ls' = l1 # ls1"
    by (auto split: sum.splits)
  from load_line_units [OF 1] Cons.IH [OF 2] 3 show ?case by simp
qed

lemma load_vehicles_units:
  "load_vehicles items vs ls s = Inr (ls', s') \<Longrightarrow>
     sum_list (map quantity ls) - sum_list (map quantity ls') =
       remaining_items s - remaining_items s'"
proof (induction vs arbitrary: s ls)
  case Nil
  then show ?case by simp
next
  case (Cons v vs)
  show ?case
  proof (cases "finished s \<or> skipped v")
    case True
    with Cons show ?thesis by (auto simp: load_vehicles_Cons split: if_splits)
  next
    case False
    with Cons.prems obtain ls1 s1 where
      1: "load_lines items v ls (enter v s) = Inr (ls1, s1)" and
      2: "load_vehicles items vs ls1 s1 = Inr (ls', s')"
      by (auto simp: load_vehicles_Cons split: sum.splits)
    from load_lines_units [OF 1] Cons.IH [OF 2] show ?thesis by simp
  qed
qed

lemma loads_of_printout:
  assumes "list_all2 (record_of_load items) us ms"
  shows "list_all (load_weight items) ms"
  using assms
  by (induction us ms rule: list_all2_induct) (auto simp: record_of_load_def)

lemma scenario_E:
  "select_vehicle (fl (7 * fl (1 / 10))) 7 [line ''I2005'' 7] [ship_A, bike_A] [solid_100g]
     = Inr outcome_E"
  by code_simp

section \<open>Properties of the specification\<close>



text \<open>
  C2.  No allocation record assigns units of a fragile item to a two-wheeled vehicle.
  Every returned record comes with the printed line of its load, which names the vehicle,
  its type, the item and a positive number of units; for none of these pairs is the
  vehicle a bike (\<open>Type\<close> is \<open>Bike\<close>) and the item fragile, whatever the capacities are.
\<close>

theorem no_fragile_item_on_bike:
  assumes "select_vehicle total_weight item_count lines rows items = Inr r"
  shows "list_all2 (\<lambda>u m. announces u m \<and> \<not> fragile_on_bike items m)
           (returned r) (loads (printout r))"
  using records_match_loads [OF assms]
  by (rule list_all2_mono) (simp add: record_of_load_def)

theorem no_fragile_item_on_bike_witness:
  "select_vehicle 3 3 [line ''I2002'' 3] [ship_A, bike_A] [solid_2kg, fragile_1kg] = Inr outcome_B \<and>
   list_all2 (\<lambda>u m. announces u m \<and> \<not> fragile_on_bike [solid_2kg, fragile_1kg] m)
     (returned outcome_B) (loads (printout outcome_B))"
  using scenario_B no_fragile_item_on_bike [OF scenario_B] by simp



text \<open>
  C7.  A request line whose item id does not resolve in the catalog is skipped silently.
  The call with such lines behaves as the call without them: it raises the same error or
  none, returns the same records, leaves the same store, the same output, the same
  running counters and capacities, and the same quantities on the lines that resolve;
  and every line that does not resolve is left as it was.
\<close>

theorem unresolved_lines_skipped_silently:
  "without_unresolved items (select_vehicle total_weight item_count lines rows items) =
     select_vehicle total_weight item_count (filter (resolves items) lines) rows items \<and>
   map_sum id snd (run total_weight item_count (filter (resolves items) lines) rows items) =
     map_sum id snd (run total_weight item_count lines rows items) \<and>
   (case select_vehicle total_weight item_count lines rows items of
      Inl e \<Rightarrow> True
    | Inr r \<Rightarrow> list_all2 (\<lambda>l' l. resolves items l \<or> l' = l) (lines_after r) lines)"
proof (intro conjI)
  have eq: "load_vehicles items (sort_key sort_key_of rows) (filter (resolves items) lines)
              (initial_state total_weight item_count rows) =
            keep_resolved items (load_vehicles items (sort_key sort_key_of rows) lines
              (initial_state total_weight item_count rows))"
    by (rule load_vehicles_keep_resolved)
  show "without_unresolved items (select_vehicle total_weight item_count lines rows items) =
     select_vehicle total_weight item_count (filter (resolves items) lines) rows items"
    unfolding select_vehicle_def allocate_def eq
    by (cases "load_vehicles items (sort_key sort_key_of rows) lines
              (initial_state total_weight item_count rows)")
       (auto simp: without_unresolved_def)
next
  show "map_sum id snd (run total_weight item_count (filter (resolves items) lines) rows items) =
     map_sum id snd (run total_weight item_count lines rows items)"
    unfolding run_def load_vehicles_keep_resolved
    by (cases "load_vehicles items (sort_key sort_key_of rows) lines
              (initial_state total_weight item_count rows)") auto
next
  show "case select_vehicle total_weight item_count lines rows items of
      Inl e \<Rightarrow> True
    | Inr r \<Rightarrow> list_all2 (\<lambda>l' l. resolves items l \<or> l' = l) (lines_after r) lines"
    by (auto simp: select_vehicle_Inr run_def split: sum.splits
        dest: load_vehicles_unresolved_kept)
qed

theorem unresolved_lines_skipped_silently_witness:
  "select_vehicle 6 8 [line ''I9999'' 5, line ''I2001'' 3] [ship_A, bike_A] [solid_2kg, fragile_1kg]
     = Inr outcome_D \<and>
   select_vehicle 6 8 [line ''I2001'' 3] [ship_A, bike_A] [solid_2kg, fragile_1kg]
     = Inr (outcome_D\<lparr>lines_after := [line ''I2001'' 0]\<rparr>) \<and>
   lines_after outcome_D = [line ''I9999'' 5, line ''I2001'' 0]"
proof -
  have f: "filter (resolves [solid_2kg, fragile_1kg]) [line ''I9999'' 5, line ''I2001'' 3]
             = [line ''I2001'' 3]"
    by code_simp
  have g: "filter (resolves [solid_2kg, fragile_1kg]) (lines_after outcome_D) = [line ''I2001'' 0]"
    by code_simp
  have h: "lines_after outcome_D = [line ''I9999'' 5, line ''I2001'' 0]"
    by (simp add: outcome_D_def)
  have w: "without_unresolved [solid_2kg, fragile_1kg] (Inr outcome_D)
             = Inr (outcome_D\<lparr>lines_after := [line ''I2001'' 0]\<rparr>)"
    by (simp add: without_unresolved_def g)
  from unresolved_lines_skipped_silently
    [of "[solid_2kg, fragile_1kg]" 6 8 "[line ''I9999'' 5, line ''I2001'' 3]" "[ship_A, bike_A]"]
  have "select_vehicle 6 8 [line ''I2001'' 3] [ship_A, bike_A] [solid_2kg, fragile_1kg]
     = Inr (outcome_D\<lparr>lines_after := [line ''I2001'' 0]\<rparr>)"
    unfolding scenario_D f w by simp
  with scenario_D h show ?thesis by simp
qed

text \<open>
  C4 (as amended).  A vehicle that an earlier item-addition call has loaded is marked
  \<open>in_use\<close> in the store and is skipped by every later call, whatever its remaining
  capacities are: the records of a call name eligible vehicles only (status not \<open>in_use\<close>,
  both remaining capacities positive), and no vehicle named by a record of one call is
  named by a record of a later call on the store that the first call left.
\<close>

theorem loaded_vehicle_skipped_by_later_call:
  assumes "select_vehicle total_weight item_count lines rows items = Inr r"
    and "select_vehicle total_weight' item_count' lines' (store r) items' = Inr r'"
  shows "upd_vehicle_id ` set (returned r) \<subseteq> vehicle_id ` set (eligible rows) \<and>
         upd_vehicle_id ` set (returned r) \<inter> upd_vehicle_id ` set (returned r') = {}"
proof
  show "upd_vehicle_id ` set (returned r) \<subseteq> vehicle_id ` set (eligible rows)"
    using assms(1) by (rule records_name_eligible_vehicles)
  show "upd_vehicle_id ` set (returned r) \<inter> upd_vehicle_id ` set (returned r') = {}"
  proof (rule ccontr)
    assume "upd_vehicle_id ` set (returned r) \<inter> upd_vehicle_id ` set (returned r') \<noteq> {}"
    then obtain vid where 1: "vid \<in> upd_vehicle_id ` set (returned r)"
      and 2: "vid \<in> upd_vehicle_id ` set (returned r')" by blast
    from 2 records_name_eligible_vehicles [OF assms(2)]
    obtain row where row: "row \<in> set (store r)" "\<not> skipped row" "vehicle_id row = vid"
      by (auto simp: eligible_def)
    from last_record_Some [OF 1] obtain u where
      u: "u \<in> set (returned r)" "last_record vid (returned r) = Some u" by blast
    from store_reflects_records [OF assms(1)] row(1) have "reflects rows (returned r) row"
      by (simp add: list_all_iff)
    with u(2) row(3) have "status row = upd_status u" by (simp add: reflects_def)
    with records_in_use [OF assms(1) u(1)] have "skipped row" by (simp add: skipped_def)
    with row(2) show False by simp
  qed
qed

theorem loaded_vehicle_skipped_by_later_call_witness:
  "select_vehicle 6 3 [line ''I2001'' 3] [truck_A, ship_A] [solid_2kg]
     = Inr (outcome_first_call [ship_A]) \<and>
   select_vehicle 2 1 [line ''I2001'' 1] (store (outcome_first_call [ship_A])) [solid_2kg]
     = Inr \<lparr>returned = [\<lparr>upd_vehicle_id = ''V1002'', upd_type = ''Ship'', upd_status = ''in_use'',
                          upd_remaining_weight = 99998, upd_remaining_items = 9999\<rparr>],
            store = [truck_loaded, ship_A\<lparr>status := ''in_use'', remaining_capacity_weight := 99998,
                                        remaining_capacity_items := 9999\<rparr>],
            lines_after = [line ''I2001'' 0],
            printout = [Loaded ''V1002'' ''Ship'' 1 ''I2001'' 2]\<rparr> \<and>
   upd_vehicle_id ` set (returned (outcome_first_call [ship_A])) \<inter> {''V1002''} = {}"
proof -
  have second: "select_vehicle 2 1 [line ''I2001'' 1] (store (outcome_first_call [ship_A])) [solid_2kg]
     = Inr \<lparr>returned = [\<lparr>upd_vehicle_id = ''V1002'', upd_type = ''Ship'', upd_status = ''in_use'',
                          upd_remaining_weight = 99998, upd_remaining_items = 9999\<rparr>],
            store = [truck_loaded, ship_A\<lparr>status := ''in_use'', remaining_capacity_weight := 99998,
                                        remaining_capacity_items := 9999\<rparr>],
            lines_after = [line ''I2001'' 0],
            printout = [Loaded ''V1002'' ''Ship'' 1 ''I2001'' 2]\<rparr>"
    by code_simp
  from loaded_vehicle_skipped_by_later_call [OF first_call_truck_ship second]
  show ?thesis using first_call_truck_ship second by simp
qed

text \<open>
  C4 as stated fails.  After a first call has put 3 units on the only truck, the truck is
  \<open>in_use\<close> with 94 kg and 7 items of capacity left; a second call for one more unit of
  2 kg returns no record and prints the shortage message.
\<close>

theorem partially_loaded_vehicle_not_eligible:
  "select_vehicle 6 3 [line ''I2001'' 3] [truck_A] [solid_2kg] = Inr (outcome_first_call []) \<and>
   store (outcome_first_call []) = [truck_loaded] \<and>
   status truck_loaded = ''in_use'' \<and>
   0 < remaining_capacity_weight truck_loaded \<and> 0 < remaining_capacity_items truck_loaded \<and>
   select_vehicle 2 1 [line ''I2001'' 1] [truck_loaded] [solid_2kg]
     = Inr \<lparr>returned = [], store = [truck_loaded], lines_after = [line ''I2001'' 1],
            printout = [NotEnoughCapacity]\<rparr>"
proof -
  have "select_vehicle 2 1 [line ''I2001'' 1] [truck_loaded] [solid_2kg]
     = Inr \<lparr>returned = [], store = [truck_loaded], lines_after = [line ''I2001'' 1],
            printout = [NotEnoughCapacity]\<rparr>"
    by code_simp
  moreover have "status truck_loaded = ''in_use'' \<and>
   0 < remaining_capacity_weight truck_loaded \<and> 0 < remaining_capacity_items truck_loaded"
    by (simp add: truck_loaded_def truck_A_def)
  ultimately show ?thesis
    using first_call_truck by (simp add: outcome_first_call_def)
qed

text \<open>
  C5 (as amended).  The returned list holds one record for every load, in the order of
  the loads: every record comes with a printed line that names its vehicle and a positive
  number of units, so a vehicle that took units from \<open>k\<close> request lines has \<open>k\<close> records
  and a vehicle that took nothing has none.  After the call each row of the store carries
  the status and the remaining capacities of the last record that names its vehicle, and
  a row that no record names is unchanged.
\<close>

theorem one_record_per_load:
  assumes "select_vehicle total_weight item_count lines rows items = Inr r"
  shows "list_all2 announces (returned r) (loads (printout r)) \<and>
         list_all (reflects rows (returned r)) (store r)"
proof
  show "list_all2 announces (returned r) (loads (printout r))"
    using records_match_loads [OF assms]
    by (rule list_all2_mono) (simp add: record_of_load_def)
  show "list_all (reflects rows (returned r)) (store r)"
    using assms by (rule store_reflects_records)
qed

theorem one_record_per_load_witness:
  "select_vehicle 3 2 [line ''I2001'' 1, line ''I2002'' 1] [truck_A] [solid_2kg, fragile_1kg]
     = Inr outcome_two_lines \<and>
   list_all2 announces (returned outcome_two_lines) (loads (printout outcome_two_lines)) \<and>
   list_all (reflects [truck_A] (returned outcome_two_lines)) (store outcome_two_lines)"
  using two_lines_on_truck one_record_per_load [OF two_lines_on_truck] by simp

text \<open>
  C5 as stated fails.  One truck takes one unit from each of two request lines: the
  returned list has two records for the truck, the first with 9 items of capacity left
  and the second with 8.
\<close>

theorem two_records_for_one_vehicle:
  "select_vehicle 3 2 [line ''I2001'' 1, line ''I2002'' 1] [truck_A] [solid_2kg, fragile_1kg]
     = Inr outcome_two_lines \<and>
   map upd_vehicle_id (returned outcome_two_lines) = [''V1003'', ''V1003''] \<and>
   map upd_remaining_items (returned outcome_two_lines) = [9, 8]"
  using two_lines_on_truck by (simp add: outcome_two_lines_def)




text \<open>
  C1 (as amended).  For every vehicle and every request line processed against it (the
  item resolves and is not a fragile item on a bike), the number of units assigned is
  \<open>max(0, n)\<close> for \<open>n = min(line.quantity, remaining order item count, vehicle remaining
  item capacity, int(min(remaining order weight, vehicle remaining weight capacity) /
  item unit weight))\<close>, where the quotient is the quotient of floats and \<open>int\<close> truncates
  it toward zero.  The line's quantity, the running item count and the vehicle's item
  capacity all go down by that number.  It is also \<open>max(0, m)\<close> for the minimum \<open>m\<close> of the
  specification, which takes the floor of the quotient: the two differ for a negative
  quotient only, and then nothing is assigned.
\<close>

theorem units_assigned:
  assumes "find_item items (line_item_id l) = Some it"
    and "\<not> (vtype v = ''Bike'' \<and> item_type it = ''fragile'')"
    and "load_line items v l s = Inr (l', s')"
  shows "\<exists>n. loadable_items s (quantity l) (weight it) = Inr n \<and>
           n = min (quantity l) (min (min (remaining_items s) (remaining_item_capacity s))
                 (py_int (fl (min (remaining_weight s) (remaining_weight_capacity s) / weight it)))) \<and>
           quantity l - quantity l' = max 0 n \<and>
           remaining_items s - remaining_items s' = max 0 n \<and>
           remaining_item_capacity s - remaining_item_capacity s' = max 0 n \<and>
           max 0 n = max 0 (spec_loadable (quantity l) (remaining_items s)
                        (remaining_item_capacity s) (remaining_weight s)
                        (remaining_weight_capacity s) (weight it))"
proof -
  from load_line_processed [OF assms] obtain n where
    n: "loadable_items s (quantity l) (weight it) = Inr n" and
    r: "if 0 < n then l' = l\<lparr>quantity := quantity l - n\<rparr> \<and> s' = loaded_state v l it n s
        else l' = l \<and> s' = s"
    by blast
  from r have "quantity l - quantity l' = max 0 n"
    "remaining_items s - remaining_items s' = max 0 n"
    "remaining_item_capacity s - remaining_item_capacity s' = max 0 n"
    by (auto split: if_splits)
  with n loadable_items_spec [OF n] show ?thesis by blast
qed

theorem units_assigned_witness:
  "find_item [solid_4200g, solid_2kg] (line_item_id (line ''I2004'' 24)) = Some solid_4200g \<and>
   load_line [solid_4200g, solid_2kg] truck_C (line ''I2004'' 24)
     (enter truck_C (initial_state total_weight_C 25 [truck_C]))
   = Inr (line ''I2004'' 0, after_first_line) \<and>
   quantity (line ''I2004'' 24) - quantity (line ''I2004'' 0) =
     max 0 (spec_loadable 24 25 50 total_weight_C (fl (1008 / 10)) (fl (42 / 10)))"
proof -
  have f: "find_item [solid_4200g, solid_2kg] (line_item_id (line ''I2004'' 24)) = Some solid_4200g"
    by code_simp
  have t: "\<not> (vtype truck_C = ''Bike'' \<and> item_type solid_4200g = ''fragile'')"
    by (simp add: truck_C_def)
  from units_assigned [OF f t first_line_C]
  have "quantity (line ''I2004'' 24) - quantity (line ''I2004'' 0) =
     max 0 (spec_loadable (quantity (line ''I2004'' 24)) 25 (remaining_capacity_items truck_C)
        total_weight_C (remaining_capacity_weight truck_C) (weight solid_4200g))"
    by auto
  then have "quantity (line ''I2004'' 24) - quantity (line ''I2004'' 0) =
     max 0 (spec_loadable 24 25 50 total_weight_C (fl (1008 / 10)) (fl (42 / 10)))"
    by (simp add: line_def truck_C_def solid_4200g_def)
  with f first_line_C show ?thesis by simp
qed

text \<open>
  C1 as stated fails.  A free truck of 100.8 kg and 50 items, 24 units of 4.2 kg and one
  unit of 2 kg.  The truck takes the 24 units, which leaves it
  \<open>100.8 - 24 * 4.2 = -1.4210854715202004e-14\<close> kg.  For the second line the quotient is
  negative: \<open>int\<close> gives 0 and no unit is assigned, while the minimum with the floor
  is \<open>-1\<close>.
\<close>

theorem floor_of_negative_quotient:
  "load_line [solid_4200g, solid_2kg] truck_C (line ''I2004'' 24)
     (enter truck_C (initial_state total_weight_C 25 [truck_C]))
   = Inr (line ''I2004'' 0, after_first_line) \<and>
   load_line [solid_4200g, solid_2kg] truck_C (line ''I2001'' 1) after_first_line
   = Inr (line ''I2001'' 1, after_first_line) \<and>
   spec_loadable (quantity (line ''I2001'' 1)) (remaining_items after_first_line)
     (remaining_item_capacity after_first_line) (remaining_weight after_first_line)
     (remaining_weight_capacity after_first_line) (weight solid_2kg) = - 1"
proof -
  have "spec_loadable (quantity (line ''I2001'' 1)) (remaining_items after_first_line)
     (remaining_item_capacity after_first_line) (remaining_weight after_first_line)
     (remaining_weight_capacity after_first_line) (weight solid_2kg) = - 1"
    by code_simp
  with first_line_C second_line_C show ?thesis by simp
qed




text \<open>
  C8 (as amended).  With distinct vehicle ids, the loads account for every change of
  capacity.  After the call each row of the store is the row before, settled with the
  loads printed for its vehicle: their weights are subtracted from its remaining weight
  capacity one after the other, as floats, and their units from its remaining item
  capacity.  The weight of every load is the float product of its units and the unit
  weight of its item, and the same weights, in the order of the loads, are subtracted
  from the running weight of the order.  Units are conserved exactly: the units
  consumed from the request lines are the units loaded, and the running item count goes
  down by them.  The sums of weights are equal up to the rounding of floats only.
\<close>

theorem loads_account_for_capacities:
  assumes "select_vehicle total_weight item_count lines rows items = Inr r"
    and "distinct (map vehicle_id rows)"
  shows "store r = map (\<lambda>row. settle row (loads_of (vehicle_id row) (printout r))) rows \<and>
         list_all (load_weight items) (loads (printout r)) \<and>
         sum_list (map quantity lines) - sum_list (map quantity (lines_after r)) =
           sum_list (map reported_units (printout r)) \<and>
         map_sum id (\<lambda>(ls', s). (remaining_weight s, remaining_items s))
             (run total_weight item_count lines rows items) =
           Inr (foldl float_sub total_weight (map reported_weight (loads (printout r))),
                item_count - sum_list (map reported_units (printout r)))"
proof -
  from assms(1) obtain ls' s where 1: "run total_weight item_count lines rows items = Inr (ls', s)"
    and r: "lines_after r = ls'"
      "printout r = (if 0 < remaining_items s then printed s @ [NotEnoughCapacity] else printed s)"
    by (auto simp: select_vehicle_Inr)
  have recs: "list_all2 (record_of_load items) (returned r) (loads (printout r))"
    using assms(1) by (rule records_match_loads)
  have pr: "list_all2 (record_of_load items) (updates s) (printed s)"
    using 1 unfolding run_def by (rule load_vehicles_records) simp
  from loads_printed [OF pr] r(2) have lp: "loads (printout r) = printed s" by simp
  have u: "sum_list (map reported_units (printout r)) = sum_list (map reported_units (printed s))"
    by (simp add: r reported_units_def)
  have c: "counted total_weight item_count s"
    using 1 unfolding run_def
    by (rule load_vehicles_counted) (simp add: counted_def)
  have q: "sum_list (map quantity lines) - sum_list (map quantity ls') =
      item_count - remaining_items s"
    using load_vehicles_units [OF 1 [unfolded run_def]] by simp
  show ?thesis
  proof (intro conjI)
    show "store r = map (\<lambda>row. settle row (loads_of (vehicle_id row) (printout r))) rows"
      using assms by (rule store_settled)
    show "list_all (load_weight items) (loads (printout r))"
      using recs by (rule loads_of_printout)
    show "sum_list (map quantity lines) - sum_list (map quantity (lines_after r)) =
           sum_list (map reported_units (printout r))"
      using q c by (simp add: r(1) u counted_def)
    show "map_sum id (\<lambda>(ls', s). (remaining_weight s, remaining_items s))
             (run total_weight item_count lines rows items) =
           Inr (foldl float_sub total_weight (map reported_weight (loads (printout r))),
                item_count - sum_list (map reported_units (printout r)))"
      using c by (simp add: 1 lp u counted_def)
  qed
qed

theorem loads_account_for_capacities_witness:
  "select_vehicle (fl (7 * fl (1 / 10))) 7 [line ''I2005'' 7] [ship_A, bike_A] [solid_100g]
     = Inr outcome_E \<and>
   distinct (map vehicle_id [ship_A, bike_A]) \<and>
   store outcome_E =
     [settle ship_A [Loaded ''V1002'' ''Ship'' 5 ''I2005'' (1 / 2)],
      settle bike_A [Loaded ''V1001'' ''Bike'' 2 ''I2005'' (fl (2 / 10))]] \<and>
   sum_list (map quantity [line ''I2005'' 7]) - sum_list (map quantity (lines_after outcome_E)) = 7"
proof -
  have d: "distinct (map vehicle_id [ship_A, bike_A])" by code_simp
  have l: "map (\<lambda>row. settle row (loads_of (vehicle_id row) (printout outcome_E))) [ship_A, bike_A]
      = [settle ship_A [Loaded ''V1002'' ''Ship'' 5 ''I2005'' (1 / 2)],
         settle bike_A [Loaded ''V1001'' ''Bike'' 2 ''I2005'' (fl (2 / 10))]]"
    by (simp add: loads_of_def reported_vehicle_def outcome_E_def ship_A_def bike_A_def)
  have u: "sum_list (map reported_units (printout outcome_E)) = 7"
    by (simp add: reported_units_def outcome_E_def)
  from loads_account_for_capacities [OF scenario_E d] scenario_E d show ?thesis
    unfolding l u by simp
qed

text \<open>
  C8 as stated fails.  Seven units of 0.1 kg, total weight \<open>7 * 0.1 = 0.7000000000000001\<close>,
  for the bike and the ship of scenario A.  The bike takes two units (\<open>10 - 2 * 0.1\<close> is
  \<open>9.8\<close>), the ship five.  The decrements of the weight capacities sum to
  \<open>(10 - 9.8) + 0.5\<close>, about \<open>0.6999999999999993\<close>; the weights of the two loads sum to
  \<open>0.2 + 0.5\<close>, which is \<open>0.7\<close> as a float; seven times the unit weight is more than either,
  as a rational number and as the float \<open>0.7000000000000001\<close>.
\<close>

theorem weight_sums_differ_by_rounding:
  "select_vehicle (fl (7 * fl (1 / 10))) 7 [line ''I2005'' 7] [ship_A, bike_A] [solid_100g]
     = Inr outcome_E \<and>
   consumed_weight [solid_100g] [line ''I2005'' 7] (lines_after outcome_E) = 7 * fl (1 / 10) \<and>
   weight_decrements [ship_A, bike_A] (store outcome_E)
     < fl (sum_list (map reported_weight (printout outcome_E))) \<and>
   fl (sum_list (map reported_weight (printout outcome_E)))
     < sum_list (map reported_weight (printout outcome_E)) \<and>
   sum_list (map reported_weight (printout outcome_E)) < 7 * fl (1 / 10) \<and>
   7 * fl (1 / 10) < fl (7 * fl (1 / 10))"
proof -
  have "consumed_weight [solid_100g] [line ''I2005'' 7] (lines_after outcome_E) = 7 * fl (1 / 10)"
    by code_simp
  moreover have "weight_decrements [ship_A, bike_A] (store outcome_E)
     < fl (sum_list (map reported_weight (printout outcome_E)))"
    by code_simp
  moreover have "fl (sum_list (map reported_weight (printout outcome_E)))
     < sum_list (map reported_weight (printout outcome_E))"
    by code_simp
  moreover have "sum_list (map reported_weight (printout outcome_E)) < 7 * fl (1 / 10)"
    by code_simp
  moreover have "7 * fl (1 / 10) < fl (7 * fl (1 / 10))"
    by code_simp
  ultimately show ?thesis using scenario_E by simp
qed

end
